theory Spec2Isabelle
  imports Main "HOL-Library.AList"
begin

section \<open>Discord role sync: the reconciliation engine of roles.ts\<close>

text \<open>
  The program mirrors the roles of the members of Discord guilds into a Supabase table,
  with an in-memory cache (\<open>rolesCache\<close>) deciding which members need a write.
  The three collaborators (the Discord REST client, the Supabase client and the
  scheduler that delivers the answers of concurrent requests) are parameters of the
  model. Each request carries its position in the log of requests issued so far, so
  that a collaborator may answer the same request differently at different times.
  \<open>initialSync\<close> is modelled on its own: no gateway event is handled while it runs.
\<close>

subsection \<open>Data\<close>

text \<open>The settled state of a promise: fulfilled with a value, or rejected with a reason.\<close>

datatype 'a settled = Fulfilled 'a | Rejected string

text \<open>
  \<open>APIGuildMember\<close>: only \<open>member.user?.id\<close> and \<open>member.roles\<close> are read.
  \<open>user_id\<close> is \<open>None\<close> when the member has no \<open>user\<close> object.
\<close>

record APIGuildMember =
  user_id :: "string option"
  member_roles :: "string list"

text \<open>
  \<open>UserRoleRow\<close>: the three columns are nullable in the table (\<open>TEXT NULL\<close>,
  \<open>TEXT[] NULL\<close>); \<open>None\<close> is SQL \<open>NULL\<close>.
\<close>

record UserRoleRow =
  guild_snowflake :: "string option"
  discord_id :: "string option"
  discord_role :: "string list option"

text \<open>The requests the program sends to its collaborators.\<close>

datatype request =
    GetGuildMembers string "string option"
  | Upsert string string "string list"
  | Delete string string

text \<open>The lines written by \<open>console.log\<close> and \<open>console.error\<close>.\<close>

datatype console_line =
    LogSyncingGuild string
  | LogFoundMembers nat string
  | ErrorFailedToSync nat string
  | ErrorFailedToUpsert string string string
  | ErrorFailedToRemove string string string
  | LogRemoved string string

text \<open>
  The collaborators. \<open>rest_get n guildId after\<close> is the settled result of
  \<open>rest.get(Routes.guildMembers(guildId), {query})\<close> when it is the \<open>n\<close>-th request;
  \<open>supabase_upsert\<close> and \<open>supabase_delete\<close> settle to the \<open>error\<close> field of the
  answer (\<open>None\<close> is \<open>null\<close>, \<open>Some message\<close> an error with that message), or reject;
  \<open>arrival n\<close> is the time at which the answer to request \<open>n\<close> comes back.
\<close>

record collaborators =
  rest_get :: "nat \<Rightarrow> string \<Rightarrow> string option \<Rightarrow> APIGuildMember list settled"
  supabase_upsert :: "nat \<Rightarrow> string \<Rightarrow> string \<Rightarrow> string list \<Rightarrow> string option settled"
  supabase_delete :: "nat \<Rightarrow> string \<Rightarrow> string \<Rightarrow> string option settled"
  arrival :: "nat \<Rightarrow> nat"

text \<open>
  The mutable state: the module-level \<open>rolesCache\<close> (a JavaScript \<open>Map\<close>, kept as an
  association list in insertion order), the log of requests issued and the console.
\<close>

record state =
  rolesCache :: "(string \<times> string list) list"
  requests :: "request list"
  console :: "console_line list"

definition PAGE_LIMIT :: nat where
  "PAGE_LIMIT = 1000"

text \<open>\<open>cacheKey\<close>: the template string \<open>`${guildId}:${discordId}`\<close>.\<close>

definition cacheKey :: "string \<Rightarrow> string \<Rightarrow> string" where
  "cacheKey guildId discordId = guildId @ '':'' @ discordId"

text \<open>JavaScript truthiness of an optional string: \<open>undefined\<close>, \<open>null\<close> and \<open>""\<close> are falsy.\<close>

definition truthy :: "string option \<Rightarrow> bool" where
  "truthy v = (case v of None \<Rightarrow> False | Some str \<Rightarrow> str \<noteq> [])"

text \<open>\<open>String.prototype.startsWith\<close>.\<close>

definition startsWith :: "string \<Rightarrow> string \<Rightarrow> bool" where
  "startsWith str pre = (take (length pre) str = pre)"

text \<open>\<open>String.prototype.split\<close> on a one-character separator: never the empty list.\<close>

fun js_split :: "char \<Rightarrow> string \<Rightarrow> string list" where
  "js_split sep [] = [[]]"
| "js_split sep (c # cs) =
     (if c = sep then [] # js_split sep cs
      else (case js_split sep cs of
              piece # pieces \<Rightarrow> (c # piece) # pieces
            | [] \<Rightarrow> [[c]]))"

text \<open>\<open>Set.prototype.symmetricDifference\<close>.\<close>

definition symmetricDifference :: "'a set \<Rightarrow> 'a set \<Rightarrow> 'a set" where
  "symmetricDifference A B = (A - B) \<union> (B - A)"

subsection \<open>Loading the cache\<close>

text \<open>
  The loop of \<open>fetchAllSupabaseRoles\<close>: a row with a falsy guild or member id is
  skipped, \<open>Map.set\<close> overwrites an existing key in place and appends a new one,
  and \<open>row.discord_role ?? []\<close> replaces \<open>NULL\<close> by the empty list.
\<close>

fun loadRows :: "UserRoleRow list \<Rightarrow> (string \<times> string list) list \<Rightarrow> (string \<times> string list) list" where
  "loadRows [] cache = cache"
| "loadRows (row # rows) cache =
     (case (guild_snowflake row, discord_id row) of
        (Some guildId, Some discordId) \<Rightarrow>
          (if guildId \<noteq> [] \<and> discordId \<noteq> [] then
             loadRows rows
               (AList.update (cacheKey guildId discordId)
                  (case discord_role row of None \<Rightarrow> [] | Some rs \<Rightarrow> rs) cache)
           else loadRows rows cache)
      | _ \<Rightarrow> loadRows rows cache)"

text \<open>
  \<open>fetchAllSupabaseRoles\<close>, given the settled answer \<open>(data, error)\<close> of the select:
  a rejection and an error both reject (\<open>if (error) throw error\<close>).
\<close>

definition fetchAllSupabaseRoles ::
  "(UserRoleRow list \<times> string option) settled \<Rightarrow> (string \<times> string list) list settled" where
  "fetchAllSupabaseRoles answer =
     (case answer of
        Rejected reason \<Rightarrow> Rejected reason
      | Fulfilled (data, Some message) \<Rightarrow> Rejected message
      | Fulfilled (data, None) \<Rightarrow> Fulfilled (loadRows data []))"

subsection \<open>Fetching the members of a guild\<close>

text \<open>
  \<open>fetchGuildMembersPage\<close>: the query carries \<open>after\<close> only when it is truthy.
\<close>

definition fetchGuildMembersPage ::
  "collaborators \<Rightarrow> string \<Rightarrow> string option \<Rightarrow> state \<Rightarrow> APIGuildMember list settled \<times> state" where
  "fetchGuildMembersPage env guildId after s =
     (let query_after = (if truthy after then after else None)
      in (rest_get env (length (requests s)) guildId query_after,
          s\<lparr>requests := requests s @ [GetGuildMembers guildId query_after]\<rparr>))"

text \<open>
  The \<open>while (page.length === PAGE_LIMIT)\<close> loop of \<open>initialSync\<close>. It may run for
  ever, so it lives in the option monad: \<open>None\<close> is a loop that never returns.
  Reading \<open>lastMember.user\<close> of an absent last element would be a \<open>TypeError\<close>.
\<close>

partial_function (option) fetchLoop ::
  "collaborators \<Rightarrow> string \<Rightarrow> APIGuildMember list \<Rightarrow> APIGuildMember list \<Rightarrow> state
     \<Rightarrow> (APIGuildMember list settled \<times> state) option" where
  "fetchLoop env guildId page guildMembers s =
     (if length page = PAGE_LIMIT then
        (if guildMembers = [] then Some (Rejected ''TypeError'', s)
         else
           (case fetchGuildMembersPage env guildId (user_id (last guildMembers)) s of
              (Rejected reason, s') \<Rightarrow> Some (Rejected reason, s')
            | (Fulfilled page', s') \<Rightarrow> fetchLoop env guildId page' (guildMembers @ page') s'))
      else Some (Fulfilled guildMembers, s))"

declare fetchLoop.simps [code]

text \<open>Lines 116 to 124: the first page, then the loop.\<close>

definition fetchAllMembers ::
  "collaborators \<Rightarrow> string \<Rightarrow> state \<Rightarrow> (APIGuildMember list settled \<times> state) option" where
  "fetchAllMembers env guildId s =
     (case fetchGuildMembersPage env guildId None s of
        (Rejected reason, s') \<Rightarrow> Some (Rejected reason, s')
      | (Fulfilled page, s') \<Rightarrow> fetchLoop env guildId page page s')"

subsection \<open>The sink adapter\<close>

text \<open>
  \<open>upsertUserRoles\<close> after its \<open>await\<close>: a rejected request rejects the call, an
  error is logged and the call returns, a success writes the cache.
\<close>

definition upsertUserRoles_resume ::
  "string \<Rightarrow> string \<Rightarrow> string list \<Rightarrow> string option settled \<Rightarrow> state \<Rightarrow> unit settled \<times> state" where
  "upsertUserRoles_resume guildId discordId roles answer s =
     (case answer of
        Rejected reason \<Rightarrow> (Rejected reason, s)
      | Fulfilled (Some message) \<Rightarrow>
          (Fulfilled (), s\<lparr>console := console s @ [ErrorFailedToUpsert discordId guildId message]\<rparr>)
      | Fulfilled None \<Rightarrow>
          (Fulfilled (), s\<lparr>rolesCache := AList.update (cacheKey guildId discordId) roles (rolesCache s)\<rparr>))"

definition upsertUserRoles ::
  "collaborators \<Rightarrow> string \<Rightarrow> string \<Rightarrow> string list \<Rightarrow> state \<Rightarrow> unit settled \<times> state" where
  "upsertUserRoles env guildId discordId roles s =
     upsertUserRoles_resume guildId discordId roles
       (supabase_upsert env (length (requests s)) guildId discordId roles)
       (s\<lparr>requests := requests s @ [Upsert guildId discordId roles]\<rparr>)"

definition removeUserRoles ::
  "collaborators \<Rightarrow> string \<Rightarrow> string \<Rightarrow> state \<Rightarrow> unit settled \<times> state" where
  "removeUserRoles env guildId discordId s =
     (let s1 = s\<lparr>requests := requests s @ [Delete guildId discordId]\<rparr>
      in case supabase_delete env (length (requests s)) guildId discordId of
           Rejected reason \<Rightarrow> (Rejected reason, s1)
         | Fulfilled (Some message) \<Rightarrow>
             (Fulfilled (), s1\<lparr>console := console s1 @ [ErrorFailedToRemove discordId guildId message]\<rparr>)
         | Fulfilled None \<Rightarrow>
             (Fulfilled (),
              s1\<lparr>rolesCache := AList.delete (cacheKey guildId discordId) (rolesCache s1),
                 console := console s1 @ [LogRemoved discordId guildId]\<rparr>))"

text \<open>
  The test of \<open>syncUserRoles\<close> that returns before any request: the key is cached
  (an array, even an empty one, is truthy) and the symmetric difference of the two
  role sets has size 0.
\<close>

definition rolesUnchanged :: "(string \<times> string list) list \<Rightarrow> string \<Rightarrow> string list \<Rightarrow> bool" where
  "rolesUnchanged cache key roles =
     (case map_of cache key of
        None \<Rightarrow> False
      | Some existing \<Rightarrow> card (symmetricDifference (set existing) (set roles)) = 0)"

definition syncUserRoles ::
  "collaborators \<Rightarrow> string \<Rightarrow> string \<Rightarrow> string list \<Rightarrow> state \<Rightarrow> unit settled \<times> state" where
  "syncUserRoles env guildId discordId roles s =
     (if rolesUnchanged (rolesCache s) (cacheKey guildId discordId) roles then (Fulfilled (), s)
      else upsertUserRoles env guildId discordId roles s)"

subsection \<open>Reconciling one guild\<close>

text \<open>
  \<open>guildMembers.filter(member => member.user?.id)\<close> followed by the arguments of the
  \<open>syncUserRoles\<close> call of the \<open>.map\<close>: the member id and the roles.
\<close>

definition syncCalls :: "APIGuildMember list \<Rightarrow> (string \<times> string list) list" where
  "syncCalls guildMembers =
     List.map_filter
       (\<lambda>member. case user_id member of
                    None \<Rightarrow> None
                  | Some discordId \<Rightarrow>
                      if discordId \<noteq> [] then Some (discordId, member_roles member) else None)
       guildMembers"

text \<open>
  The \<open>.map\<close> runs every \<open>syncUserRoles\<close> call up to its first \<open>await\<close>, one after
  the other: a call either returns at once or issues its upsert and waits for the
  answer. No answer is handled before the map is over, so every call reads the cache
  as it was before the map. A waiting call is kept as the position of its request,
  the member id and the roles.
\<close>

fun startSyncs ::
  "string \<Rightarrow> (string \<times> string list) list \<Rightarrow> state \<Rightarrow> (nat \<times> string \<times> string list) list \<times> state" where
  "startSyncs guildId [] s = ([], s)"
| "startSyncs guildId ((discordId, roles) # calls) s =
     (if rolesUnchanged (rolesCache s) (cacheKey guildId discordId) roles then
        startSyncs guildId calls s
      else
        (case startSyncs guildId calls (s\<lparr>requests := requests s @ [Upsert guildId discordId roles]\<rparr>) of
           (waiting, s') \<Rightarrow> ((length (requests s), discordId, roles) # waiting, s')))"

text \<open>The waiting calls resume one by one, each with the answer to its own request.\<close>

fun settleSyncs ::
  "collaborators \<Rightarrow> string \<Rightarrow> (nat \<times> string \<times> string list) list \<Rightarrow> state \<Rightarrow> unit settled list \<times> state" where
  "settleSyncs env guildId [] s = ([], s)"
| "settleSyncs env guildId ((n, discordId, roles) # waiting) s =
     (case upsertUserRoles_resume guildId discordId roles
             (supabase_upsert env n guildId discordId roles) s of
        (outcome, s1) \<Rightarrow>
          (case settleSyncs env guildId waiting s1 of
             (outcomes, s2) \<Rightarrow> (outcome # outcomes, s2)))"

text \<open>
  \<open>Promise.allSettled\<close> over the map: the waiting calls resume in the order in which
  their answers arrive. The result lists the outcomes of the calls that waited; the
  calls that returned at once are fulfilled, and the source only counts the rejected.
\<close>

definition syncAllSettled ::
  "collaborators \<Rightarrow> string \<Rightarrow> APIGuildMember list \<Rightarrow> state \<Rightarrow> unit settled list \<times> state" where
  "syncAllSettled env guildId guildMembers s =
     (case startSyncs guildId (syncCalls guildMembers) s of
        (waiting, s1) \<Rightarrow>
          settleSyncs env guildId (sort_key (\<lambda>call. arrival env (fst call)) waiting) s1)"

fun is_rejected :: "'a settled \<Rightarrow> bool" where
  "is_rejected (Rejected reason) = True"
| "is_rejected (Fulfilled v) = False"

text \<open>\<open>new Set(guildMembers.map(m => m.user?.id).filter(Boolean))\<close>.\<close>

definition discordUserIds :: "APIGuildMember list \<Rightarrow> string set" where
  "discordUserIds guildMembers =
     set (List.map_filter (\<lambda>member. if truthy (user_id member) then user_id member else None)
            guildMembers)"

text \<open>\<open>[...rolesCache.keys()].filter(key => key.startsWith(`${guildId}:`))\<close>.\<close>

definition cachedKeys :: "string \<Rightarrow> (string \<times> string list) list \<Rightarrow> string list" where
  "cachedKeys guildId cache = filter (\<lambda>key. startsWith key (guildId @ '':'')) (map fst cache)"

text \<open>
  \<open>key.split(':')[1]\<close>. A key without a colon has no second piece; the template
  string of \<open>cacheKey\<close> would then print \<open>undefined\<close>.
\<close>

definition discordIdOfKey :: "string \<Rightarrow> string" where
  "discordIdOfKey key =
     (case js_split CHR '':'' key of
        first # second # pieces \<Rightarrow> second
      | _ \<Rightarrow> ''undefined'')"

text \<open>
  The \<open>for (const key of cachedKeys)\<close> loop: the keys were listed before the loop;
  a rejected \<open>removeUserRoles\<close> leaves the loop, and \<open>initialSync\<close> with it.
\<close>

fun pruneLoop ::
  "collaborators \<Rightarrow> string \<Rightarrow> string set \<Rightarrow> string list \<Rightarrow> state \<Rightarrow> unit settled \<times> state" where
  "pruneLoop env guildId ids [] s = (Fulfilled (), s)"
| "pruneLoop env guildId ids (key # keys) s =
     (if discordIdOfKey key \<notin> ids then
        (case removeUserRoles env guildId (discordIdOfKey key) s of
           (Rejected reason, s') \<Rightarrow> (Rejected reason, s')
         | (Fulfilled u, s') \<Rightarrow> pruneLoop env guildId ids keys s')
      else pruneLoop env guildId ids keys s)"

text \<open>Lines 128 to 149: the state after the fetch, the members fetched.\<close>

definition syncAndPrune ::
  "collaborators \<Rightarrow> string \<Rightarrow> APIGuildMember list \<Rightarrow> state \<Rightarrow> unit settled \<times> state" where
  "syncAndPrune env guildId guildMembers s =
     (case syncAllSettled env guildId guildMembers s of
        (syncResults, s1) \<Rightarrow>
          (let failures = filter is_rejected syncResults;
               s2 = (if length failures > 0
                     then s1\<lparr>console := console s1 @ [ErrorFailedToSync (length failures) guildId]\<rparr>
                     else s1)
           in pruneLoop env guildId (discordUserIds guildMembers)
                (cachedKeys guildId (rolesCache s2)) s2))"

text \<open>The body of the \<open>for (const guildId of guildIds)\<close> loop.\<close>

definition syncGuild ::
  "collaborators \<Rightarrow> string \<Rightarrow> state \<Rightarrow> (unit settled \<times> state) option" where
  "syncGuild env guildId s =
     (case fetchAllMembers env guildId (s\<lparr>console := console s @ [LogSyncingGuild guildId]\<rparr>) of
        None \<Rightarrow> None
      | Some (Rejected reason, s1) \<Rightarrow> Some (Rejected reason, s1)
      | Some (Fulfilled guildMembers, s1) \<Rightarrow>
          Some (syncAndPrune env guildId guildMembers
                  (s1\<lparr>console := console s1 @ [LogFoundMembers (length guildMembers) guildId]\<rparr>)))"

text \<open>\<open>initialSync\<close>: nothing catches a rejection, so the first one ends the loop.\<close>

fun initialSync ::
  "collaborators \<Rightarrow> string list \<Rightarrow> state \<Rightarrow> (unit settled \<times> state) option" where
  "initialSync env [] s = Some (Fulfilled (), s)"
| "initialSync env (guildId # guildIds) s =
     (case syncGuild env guildId s of
        None \<Rightarrow> None
      | Some (Rejected reason, s') \<Rightarrow> Some (Rejected reason, s')
      | Some (Fulfilled u, s') \<Rightarrow> initialSync env guildIds s')"

subsection \<open>Scenarios and auxiliary notions\<close>

text \<open>
  The cursor sent after a page: the user id of its last member when that id is truthy,
  no cursor otherwise.
\<close>

definition cursorAfter :: "APIGuildMember list \<Rightarrow> string option" where
  "cursorAfter page =
     (if page = [] then None
      else if truthy (user_id (last page)) then user_id (last page) else None)"

text \<open>
  \<open>served env n guildId cursor pages\<close>: from request \<open>n\<close> on, the Discord client answers
  the request with cursor \<open>cursor\<close> by the first page, the request with the cursor of
  that page by the second page, and so on.
\<close>

fun served :: "collaborators \<Rightarrow> nat \<Rightarrow> string \<Rightarrow> string option \<Rightarrow> APIGuildMember list list \<Rightarrow> bool" where
  "served env n guildId cursor [] = True"
| "served env n guildId cursor (page # pages) =
     (rest_get env n guildId cursor = Fulfilled page \<and>
      served env (Suc n) guildId (cursorAfter page) pages)"

text \<open>The requests that fetch these pages one after the other.\<close>

fun pageRequests :: "string \<Rightarrow> string option \<Rightarrow> APIGuildMember list list \<Rightarrow> request list" where
  "pageRequests guildId cursor [] = []"
| "pageRequests guildId cursor (page # pages) =
     GetGuildMembers guildId cursor # pageRequests guildId (cursorAfter page) pages"

text \<open>
  The composite key is read back by splitting at the colon, so the ids must not
  contain one: Discord snowflakes are strings of decimal digits.
\<close>

definition noColon :: "string \<Rightarrow> bool" where
  "noColon str = (CHR '':'' \<notin> set str)"

definition oneColon :: "string \<Rightarrow> bool" where
  "oneColon key = (length (filter (\<lambda>c. c = CHR '':'') key) = 1)"

definition wellFormedRow :: "UserRoleRow \<Rightarrow> bool" where
  "wellFormedRow row =
     ((case guild_snowflake row of None \<Rightarrow> True | Some guildId \<Rightarrow> noColon guildId) \<and>
      (case discord_id row of None \<Rightarrow> True | Some discordId \<Rightarrow> noColon discordId))"

text \<open>
  The member ids for which the pruning loop reaches its call of \<open>removeUserRoles\<close>,
  in the order of the loop.
\<close>

definition staleIds :: "string \<Rightarrow> string set \<Rightarrow> (string \<times> string list) list \<Rightarrow> string list" where
  "staleIds guildId ids cache =
     filter (\<lambda>discordId. discordId \<notin> ids) (map discordIdOfKey (cachedKeys guildId cache))"

text \<open>
  Of the deletes requested one after the other from request \<open>n\<close> on, those that the
  sink confirms.
\<close>

fun confirmedDeletes :: "collaborators \<Rightarrow> nat \<Rightarrow> string \<Rightarrow> string list \<Rightarrow> string list" where
  "confirmedDeletes env n guildId [] = []"
| "confirmedDeletes env n guildId (discordId # discordIds) =
     (if supabase_delete env n guildId discordId = Fulfilled None
      then discordId # confirmedDeletes env (Suc n) guildId discordIds
      else confirmedDeletes env (Suc n) guildId discordIds)"

text \<open>
  Of the deletes to request one after the other from request \<open>n\<close> on, those that are
  requested: all up to the first whose request is rejected, that one included.
\<close>

fun attemptedDeletes :: "collaborators \<Rightarrow> nat \<Rightarrow> string \<Rightarrow> string list \<Rightarrow> string list" where
  "attemptedDeletes env n guildId [] = []"
| "attemptedDeletes env n guildId (discordId # discordIds) =
     discordId #
     (if is_rejected (supabase_delete env n guildId discordId) then []
      else attemptedDeletes env (Suc n) guildId discordIds)"

text \<open>The calls of the map that do not return at once: the members that changed.\<close>

definition changedCalls ::
  "string \<Rightarrow> (string \<times> string list) list \<Rightarrow> APIGuildMember list \<Rightarrow> (string \<times> string list) list" where
  "changedCalls guildId cache guildMembers =
     filter (\<lambda>call. \<not> rolesUnchanged cache (cacheKey guildId (fst call)) (snd call))
       (syncCalls guildMembers)"

text \<open>The member list that holds exactly the members of the rows of one guild.\<close>

definition membersOfRows :: "string \<Rightarrow> UserRoleRow list \<Rightarrow> APIGuildMember list" where
  "membersOfRows guildId rows =
     map (\<lambda>row. \<lparr>user_id = discord_id row,
                  member_roles = (case discord_role row of None \<Rightarrow> [] | Some rs \<Rightarrow> rs)\<rparr>)
       (filter (\<lambda>row. guild_snowflake row = Some guildId) rows)"

subsection \<open>Example collaborators and states\<close>

text \<open>A cache with three members of guild \<open>g\<close> and one of guild \<open>h\<close>; nothing requested yet.\<close>

definition exampleState :: state where
  "exampleState =
     \<lparr>rolesCache = [(''g:1'', [''admin'', ''mod'']), (''g:2'', []), (''g:3'', [''mod'']), (''h:1'', [''vip''])],
      requests = [], console = []\<rparr>"

text \<open>A sink that confirms every write; guild \<open>g\<close> has the members 1 and 3.\<close>

definition acceptingSink :: collaborators where
  "acceptingSink =
     \<lparr>rest_get = (\<lambda>n guildId after.
         if guildId = ''g''
         then Fulfilled [\<lparr>user_id = Some ''1'', member_roles = [''mod'', ''admin'']\<rparr>,
                         \<lparr>user_id = Some ''3'', member_roles = [''mod'', ''vip'']\<rparr>]
         else Fulfilled []),
      supabase_upsert = (\<lambda>n guildId discordId roles. Fulfilled None),
      supabase_delete = (\<lambda>n guildId discordId. Fulfilled None),
      arrival = (\<lambda>n. n)\<rparr>"

text \<open>The same guild in front of a sink that answers every write with an error.\<close>

definition failingSink :: collaborators where
  "failingSink =
     \<lparr>rest_get = rest_get acceptingSink,
      supabase_upsert = (\<lambda>n guildId discordId roles. Fulfilled (Some ''service unavailable'')),
      supabase_delete = (\<lambda>n guildId discordId. Fulfilled (Some ''service unavailable'')),
      arrival = (\<lambda>n. n)\<rparr>"

text \<open>A Supabase client whose requests reject (the promise itself fails).\<close>

definition rejectingSink :: collaborators where
  "rejectingSink =
     \<lparr>rest_get = rest_get acceptingSink,
      supabase_upsert = (\<lambda>n guildId discordId roles. Rejected ''fetch failed''),
      supabase_delete = (\<lambda>n guildId discordId. Rejected ''fetch failed''),
      arrival = (\<lambda>n. n)\<rparr>"

text \<open>
  A guild of 2037 members served in pages of 1000, 1000 and 37, by cursor; the members
  of a page all carry the id that the next request sends as its cursor.
\<close>

definition pagedGuild :: collaborators where
  "pagedGuild =
     \<lparr>rest_get = (\<lambda>n guildId after.
         case after of
           None \<Rightarrow> Fulfilled (replicate 1000 \<lparr>user_id = Some ''1000'', member_roles = []\<rparr>)
         | Some cursor \<Rightarrow>
             if cursor = ''1000''
             then Fulfilled (replicate 1000 \<lparr>user_id = Some ''2000'', member_roles = []\<rparr>)
             else Fulfilled (replicate 37 \<lparr>user_id = Some ''2037'', member_roles = []\<rparr>)),
      supabase_upsert = (\<lambda>n guildId discordId roles. Fulfilled None),
      supabase_delete = (\<lambda>n guildId discordId. Fulfilled None),
      arrival = (\<lambda>n. n)\<rparr>"

text \<open>A guild whose every page is full and ends with a member without a \<open>user\<close> object.\<close>

definition anonymousGuild :: collaborators where
  "anonymousGuild =
     \<lparr>rest_get = (\<lambda>n guildId after.
         Fulfilled (replicate 1000 \<lparr>user_id = None, member_roles = []\<rparr>)),
      supabase_upsert = (\<lambda>n guildId discordId roles. Fulfilled None),
      supabase_delete = (\<lambda>n guildId discordId. Fulfilled None),
      arrival = (\<lambda>n. n)\<rparr>"

text \<open>Guild \<open>a\<close> cannot be fetched; every other guild is as with \<open>acceptingSink\<close>.\<close>

definition unknownGuild :: collaborators where
  "unknownGuild =
     \<lparr>rest_get = (\<lambda>n guildId after.
         if guildId = ''a'' then Rejected ''Unknown Guild''
         else rest_get acceptingSink n guildId after),
      supabase_upsert = (\<lambda>n guildId discordId roles. Fulfilled None),
      supabase_delete = (\<lambda>n guildId discordId. Fulfilled None),
      arrival = (\<lambda>n. n)\<rparr>"

text \<open>
  A sink whose upsert request for member 1 is rejected; every other write is confirmed.
  Guild \<open>g\<close> has the members 1, 3 and 4.
\<close>

definition flakySink :: collaborators where
  "flakySink =
     \<lparr>rest_get = (\<lambda>n guildId after.
         Fulfilled [\<lparr>user_id = Some ''1'', member_roles = [''mod'']\<rparr>,
                    \<lparr>user_id = Some ''3'', member_roles = [''mod'', ''vip'']\<rparr>,
                    \<lparr>user_id = Some ''4'', member_roles = []\<rparr>]),
      supabase_upsert = (\<lambda>n guildId discordId roles.
         if discordId = ''1'' then Rejected ''socket closed'' else Fulfilled None),
      supabase_delete = (\<lambda>n guildId discordId. Fulfilled None),
      arrival = (\<lambda>n. 10 - n)\<rparr>"

text \<open>Rows of two guilds, among them a row without a guild and a row with an empty member id.\<close>

definition exampleRows :: "UserRoleRow list" where
  "exampleRows =
     [\<lparr>guild_snowflake = Some ''g'', discord_id = Some ''1'', discord_role = Some [''admin'']\<rparr>,
      \<lparr>guild_snowflake = Some ''g'', discord_id = Some ''2'', discord_role = None\<rparr>,
      \<lparr>guild_snowflake = Some ''h'', discord_id = Some ''1'', discord_role = Some [''vip'']\<rparr>,
      \<lparr>guild_snowflake = None, discord_id = Some ''7'', discord_role = None\<rparr>,
      \<lparr>guild_snowflake = Some ''g'', discord_id = Some '''', discord_role = Some []\<rparr>]"

text \<open>A row whose member id contains the separator.\<close>

definition colonRows :: "UserRoleRow list" where
  "colonRows =
     [\<lparr>guild_snowflake = Some ''g'', discord_id = Some ''1:2'', discord_role = Some [''mod'']\<rparr>]"

text \<open>
  The cache loaded from that row and a row of member 1, the only member still in the
  guild.
\<close>

definition colonState :: state where
  "colonState =
     \<lparr>rolesCache =
        loadRows (colonRows @
          [\<lparr>guild_snowflake = Some ''g'', discord_id = Some ''1'', discord_role = Some [''vip'']\<rparr>]) [],
      requests = [], console = []\<rparr>"

section \<open>Properties\<close>

subsection \<open>The sink adapter\<close>

lemma requests_upsertUserRoles:
  "requests (snd (upsertUserRoles env guildId discordId roles s)) =
     requests s @ [Upsert guildId discordId roles]"
  by (simp add: upsertUserRoles_def upsertUserRoles_resume_def split: settled.splits option.splits)

lemma rolesUnchanged_iff:
  "rolesUnchanged cache key roles \<longleftrightarrow>
     (\<exists>existing. map_of cache key = Some existing \<and> set existing = set roles)"
  by (auto simp: rolesUnchanged_def symmetricDifference_def split: option.splits)

text \<open>
  C2. The comparator of \<open>syncUserRoles\<close>: without a cache entry for the key the member
  counts as changed and the upsert is issued, whatever the observed roles; with a cache
  entry \<open>existing\<close> (an empty list included) the member counts as changed exactly when
  the symmetric difference of the two role lists, taken as sets, is not empty, and
  only then is an upsert issued.
\<close>

theorem change_comparator:
  "(case map_of (rolesCache s) (cacheKey guildId discordId) of
      None \<Rightarrow>
        \<not> rolesUnchanged (rolesCache s) (cacheKey guildId discordId) roles \<and>
        requests (snd (syncUserRoles env guildId discordId roles s)) =
          requests s @ [Upsert guildId discordId roles]
    | Some existing \<Rightarrow>
        (\<not> rolesUnchanged (rolesCache s) (cacheKey guildId discordId) roles) =
          ((set existing - set roles) \<union> (set roles - set existing) \<noteq> {}) \<and>
        (if (set existing - set roles) \<union> (set roles - set existing) \<noteq> {}
         then requests (snd (syncUserRoles env guildId discordId roles s)) =
                requests s @ [Upsert guildId discordId roles]
         else syncUserRoles env guildId discordId roles s = (Fulfilled (), s)))"
  by (auto simp: syncUserRoles_def requests_upsertUserRoles rolesUnchanged_iff split: option.splits)

theorem change_comparator_witness:
  "requests (snd (syncUserRoles acceptingSink ''g'' ''9'' [] exampleState)) = [Upsert ''g'' ''9'' []] \<and>
   requests (snd (syncUserRoles acceptingSink ''g'' ''2'' [''mod''] exampleState)) =
     [Upsert ''g'' ''2'' [''mod'']] \<and>
   syncUserRoles acceptingSink ''g'' ''2'' [] exampleState = (Fulfilled (), exampleState) \<and>
   syncUserRoles acceptingSink ''g'' ''1'' [''mod'', ''admin'', ''mod''] exampleState =
     (Fulfilled (), exampleState)"
  using change_comparator [of exampleState "''g''" "''9''" "[]" acceptingSink]
    change_comparator [of exampleState "''g''" "''2''" "[''mod'']" acceptingSink]
    change_comparator [of exampleState "''g''" "''2''" "[]" acceptingSink]
    change_comparator [of exampleState "''g''" "''1''" "[''mod'', ''admin'', ''mod'']" acceptingSink]
  by (simp add: exampleState_def cacheKey_def)

text \<open>
  C6. Every mutation is write-through. \<open>upsertUserRoles\<close> and \<open>removeUserRoles\<close> always
  issue their request first; the cache afterwards is the cache before with the key set
  to the observed roles (or the key removed) when the sink confirms the write, and is
  the cache before, unchanged, when the sink answers with an error or the request is
  rejected. \<open>syncUserRoles\<close> writes the cache only through such a confirmed upsert.
\<close>

theorem write_through:
  "(case upsertUserRoles env guildId discordId roles s of
      (outcome, s') \<Rightarrow>
        requests s' = requests s @ [Upsert guildId discordId roles] \<and>
        rolesCache s' =
          (if supabase_upsert env (length (requests s)) guildId discordId roles = Fulfilled None
           then AList.update (cacheKey guildId discordId) roles (rolesCache s)
           else rolesCache s)) \<and>
   (case removeUserRoles env guildId discordId s of
      (outcome, s') \<Rightarrow>
        requests s' = requests s @ [Delete guildId discordId] \<and>
        rolesCache s' =
          (if supabase_delete env (length (requests s)) guildId discordId = Fulfilled None
           then AList.delete (cacheKey guildId discordId) (rolesCache s)
           else rolesCache s)) \<and>
   (case syncUserRoles env guildId discordId roles s of
      (outcome, s') \<Rightarrow>
        rolesCache s' =
          (if \<not> rolesUnchanged (rolesCache s) (cacheKey guildId discordId) roles \<and>
              supabase_upsert env (length (requests s)) guildId discordId roles = Fulfilled None
           then AList.update (cacheKey guildId discordId) roles (rolesCache s)
           else rolesCache s))"
  by (simp add: upsertUserRoles_def upsertUserRoles_resume_def removeUserRoles_def syncUserRoles_def
      Let_def split: settled.splits option.splits)

text \<open>
  A failing sink leaves the entry of member 2 as it was; a confirming sink replaces or
  removes it.
\<close>

theorem write_through_witness:
  "map_of (rolesCache (snd (upsertUserRoles failingSink ''g'' ''2'' [''mod''] exampleState))) ''g:2'' = Some [] \<and>
   map_of (rolesCache (snd (upsertUserRoles acceptingSink ''g'' ''2'' [''mod''] exampleState))) ''g:2'' = Some [''mod''] \<and>
   map_of (rolesCache (snd (removeUserRoles failingSink ''g'' ''2'' exampleState))) ''g:2'' = Some [] \<and>
   map_of (rolesCache (snd (removeUserRoles acceptingSink ''g'' ''2'' exampleState))) ''g:2'' = None"
  using write_through [where env = failingSink and guildId = "''g''" and discordId = "''2''"
      and roles = "[''mod'']" and s = exampleState]
    write_through [where env = acceptingSink and guildId = "''g''" and discordId = "''2''"
      and roles = "[''mod'']" and s = exampleState]
  by (simp add: exampleState_def failingSink_def acceptingSink_def cacheKey_def split: prod.splits)

text \<open>
  C3 as stated fails. The sink answers the upsert and the delete with an error, and
  both \<open>syncUserRoles\<close> and \<open>removeUserRoles\<close> are fulfilled: the caller sees a success.
\<close>

theorem sink_error_surfaced_counterexample:
  "supabase_upsert failingSink (length (requests exampleState)) ''g'' ''2'' [''mod''] =
     Fulfilled (Some ''service unavailable'') \<and>
   fst (syncUserRoles failingSink ''g'' ''2'' [''mod''] exampleState) = Fulfilled () \<and>
   supabase_delete failingSink (length (requests exampleState)) ''g'' ''2'' =
     Fulfilled (Some ''service unavailable'') \<and>
   fst (removeUserRoles failingSink ''g'' ''2'' exampleState) = Fulfilled ()"
  by (simp add: failingSink_def exampleState_def syncUserRoles_def rolesUnchanged_def cacheKey_def
      symmetricDifference_def upsertUserRoles_def upsertUserRoles_resume_def removeUserRoles_def)

text \<open>
  C3, amended. When the sink answers an upsert or a delete with an error,
  \<open>syncUserRoles\<close> and \<open>removeUserRoles\<close> write the error to the console, leave the
  cache as it was and are fulfilled, so the caller cannot observe the failure. Only a
  rejected request reaches the caller, as a rejection with the same reason.
\<close>

theorem sink_error_logged_not_surfaced:
  "(supabase_upsert env (length (requests s)) guildId discordId roles = Fulfilled (Some message) \<and>
    \<not> rolesUnchanged (rolesCache s) (cacheKey guildId discordId) roles \<longrightarrow>
      syncUserRoles env guildId discordId roles s =
        (Fulfilled (),
         s\<lparr>requests := requests s @ [Upsert guildId discordId roles],
           console := console s @ [ErrorFailedToUpsert discordId guildId message]\<rparr>)) \<and>
   (supabase_delete env (length (requests s)) guildId discordId = Fulfilled (Some message) \<longrightarrow>
      removeUserRoles env guildId discordId s =
        (Fulfilled (),
         s\<lparr>requests := requests s @ [Delete guildId discordId],
           console := console s @ [ErrorFailedToRemove discordId guildId message]\<rparr>)) \<and>
   (supabase_upsert env (length (requests s)) guildId discordId roles = Rejected reason \<and>
    \<not> rolesUnchanged (rolesCache s) (cacheKey guildId discordId) roles \<longrightarrow>
      syncUserRoles env guildId discordId roles s =
        (Rejected reason, s\<lparr>requests := requests s @ [Upsert guildId discordId roles]\<rparr>)) \<and>
   (supabase_delete env (length (requests s)) guildId discordId = Rejected reason \<longrightarrow>
      removeUserRoles env guildId discordId s =
        (Rejected reason, s\<lparr>requests := requests s @ [Delete guildId discordId]\<rparr>))"
  by (simp add: syncUserRoles_def upsertUserRoles_def upsertUserRoles_resume_def removeUserRoles_def)

theorem sink_error_logged_not_surfaced_witness:
  "syncUserRoles failingSink ''g'' ''2'' [''mod''] exampleState =
     (Fulfilled (),
      exampleState\<lparr>requests := [Upsert ''g'' ''2'' [''mod'']],
        console := [ErrorFailedToUpsert ''2'' ''g'' ''service unavailable'']\<rparr>) \<and>
   removeUserRoles failingSink ''g'' ''2'' exampleState =
     (Fulfilled (),
      exampleState\<lparr>requests := [Delete ''g'' ''2''],
        console := [ErrorFailedToRemove ''2'' ''g'' ''service unavailable'']\<rparr>) \<and>
   syncUserRoles rejectingSink ''g'' ''2'' [''mod''] exampleState =
     (Rejected ''fetch failed'', exampleState\<lparr>requests := [Upsert ''g'' ''2'' [''mod'']]\<rparr>) \<and>
   removeUserRoles rejectingSink ''g'' ''2'' exampleState =
     (Rejected ''fetch failed'', exampleState\<lparr>requests := [Delete ''g'' ''2'']\<rparr>)"
  using sink_error_logged_not_surfaced [where env = failingSink and s = exampleState
      and guildId = "''g''" and discordId = "''2''" and roles = "[''mod'']"
      and message = "''service unavailable''" and reason = "''fetch failed''"]
    sink_error_logged_not_surfaced [where env = rejectingSink and s = exampleState
      and guildId = "''g''" and discordId = "''2''" and roles = "[''mod'']"
      and message = "''service unavailable''" and reason = "''fetch failed''"]
  by (simp add: failingSink_def rejectingSink_def exampleState_def rolesUnchanged_def cacheKey_def
      symmetricDifference_def)




subsection \<open>Pagination\<close>

lemma fetchGuildMembersPage_cursor:
  "guildMembers \<noteq> [] \<Longrightarrow>
   fetchGuildMembersPage env guildId (user_id (last guildMembers)) s =
     (rest_get env (length (requests s)) guildId (cursorAfter guildMembers),
      s\<lparr>requests := requests s @ [GetGuildMembers guildId (cursorAfter guildMembers)]\<rparr>)"
  by (simp add: fetchGuildMembersPage_def cursorAfter_def Let_def)

lemma full_page_not_empty: "length page = PAGE_LIMIT \<Longrightarrow> page \<noteq> []"
  by (auto simp: PAGE_LIMIT_def)

lemma fetchLoop_served:
  assumes "served env (length (requests s)) guildId (cursorAfter page) pages"
    and "\<forall>p\<in>set (butlast (page # pages)). length p = PAGE_LIMIT"
    and "length (last (page # pages)) \<noteq> PAGE_LIMIT"
    and "page \<noteq> [] \<longrightarrow> acc \<noteq> [] \<and> last acc = last page"
  shows "fetchLoop env guildId page acc s =
           Some (Fulfilled (acc @ concat pages),
                 s\<lparr>requests := requests s @ pageRequests guildId (cursorAfter page) pages\<rparr>)"
  using assms
proof (induction pages arbitrary: page acc s)
  case Nil
  then show ?case by (simp add: fetchLoop.simps)
next
  case (Cons p ps)
  from Cons.prems(2) have full: "length page = PAGE_LIMIT" by simp
  then have ne: "page \<noteq> []" by (rule full_page_not_empty)
  with Cons.prems(4) have acc: "acc \<noteq> []" "last acc = last page" by simp_all
  from Cons.prems(1) have got: "rest_get env (length (requests s)) guildId (cursorAfter page) = Fulfilled p"
    and rest: "served env (Suc (length (requests s))) guildId (cursorAfter p) ps" by simp_all
  let ?s' = "s\<lparr>requests := requests s @ [GetGuildMembers guildId (cursorAfter page)]\<rparr>"
  have step: "fetchLoop env guildId page acc s = fetchLoop env guildId p (acc @ p) ?s'"
    by (subst fetchLoop.simps)
      (simp add: full acc ne fetchGuildMembersPage_cursor got)
  have "fetchLoop env guildId p (acc @ p) ?s' =
          Some (Fulfilled ((acc @ p) @ concat ps),
                ?s'\<lparr>requests := requests ?s' @ pageRequests guildId (cursorAfter p) ps\<rparr>)"
  proof (rule Cons.IH)
    show "served env (length (requests ?s')) guildId (cursorAfter p) ps" using rest by simp
    show "\<forall>q\<in>set (butlast (p # ps)). length q = PAGE_LIMIT" using Cons.prems(2) by simp
    show "length (last (p # ps)) \<noteq> PAGE_LIMIT" using Cons.prems(3) by simp
    show "p \<noteq> [] \<longrightarrow> acc @ p \<noteq> [] \<and> last (acc @ p) = last p" by simp
  qed
  with step show ?case by simp
qed

lemma fetchAllMembers_served:
  assumes "served env (length (requests s)) guildId None (fullPages @ [lastPage])"
    and "\<forall>p\<in>set fullPages. length p = PAGE_LIMIT"
    and "length lastPage \<noteq> PAGE_LIMIT"
  shows "fetchAllMembers env guildId s =
           Some (Fulfilled (concat fullPages @ lastPage),
                 s\<lparr>requests := requests s @ pageRequests guildId None (fullPages @ [lastPage])\<rparr>)"
proof -
  obtain page pages where split: "fullPages @ [lastPage] = page # pages"
    by (cases fullPages) auto
  let ?s' = "s\<lparr>requests := requests s @ [GetGuildMembers guildId None]\<rparr>"
  from assms(1) split have got: "rest_get env (length (requests s)) guildId None = Fulfilled page"
    and rest: "served env (length (requests ?s')) guildId (cursorAfter page) pages" by simp_all
  have bl: "butlast (page # pages) = fullPages" and la: "last (page # pages) = lastPage"
    using split [symmetric] by simp_all
  have "fetchLoop env guildId page page ?s' =
          Some (Fulfilled (page @ concat pages),
                ?s'\<lparr>requests := requests ?s' @ pageRequests guildId (cursorAfter page) pages\<rparr>)"
    using assms(2,3) by (intro fetchLoop_served [OF rest]) (simp_all add: bl la del: butlast.simps last.simps)
  moreover have "page @ concat pages = concat fullPages @ lastPage"
    using arg_cong [OF split, of concat] by simp
  ultimately show ?thesis
    using got by (simp add: fetchAllMembers_def fetchGuildMembersPage_def truthy_def split)
qed

lemma length_pageRequests: "length (pageRequests guildId cursor pages) = length pages"
  by (induction pages arbitrary: cursor) simp_all

text \<open>
  C5. When the Discord client serves, cursor after cursor, a run of pages of exactly
  \<open>PAGE_LIMIT\<close> members followed by a page of fewer, the fetch issues one request per
  page: the first without a cursor, each later one with the cursor taken from the last
  member of the page before. It stops at the short page and returns all the pages
  appended in order. Pages of 1000, 1000 and 37 members take 3 requests and give 2037
  members; a first page of fewer than 1000 members takes 1 request.
\<close>

theorem fetchAllMembers_pages:
  assumes "served env (length (requests s)) guildId None (fullPages @ [lastPage])"
    and "\<forall>p\<in>set fullPages. length p = PAGE_LIMIT"
    and "length lastPage < PAGE_LIMIT"
  shows "fetchAllMembers env guildId s =
           Some (Fulfilled (concat fullPages @ lastPage),
                 s\<lparr>requests := requests s @ pageRequests guildId None (fullPages @ [lastPage])\<rparr>) \<and>
         length (pageRequests guildId None (fullPages @ [lastPage])) = length fullPages + 1"
  using fetchAllMembers_served [OF assms(1,2)] assms(3) by (simp add: length_pageRequests)

lemma fetchLoop_restart_step:
  assumes "length page = PAGE_LIMIT" and "guildMembers \<noteq> []"
    and "\<not> truthy (user_id (last guildMembers))"
    and "rest_get env (length (requests s)) guildId None = Fulfilled page'"
  shows "fetchLoop env guildId page guildMembers s =
           fetchLoop env guildId page' (guildMembers @ page')
             (s\<lparr>requests := requests s @ [GetGuildMembers guildId None]\<rparr>)"
  using assms by (subst fetchLoop.simps) (simp add: fetchGuildMembersPage_def)

lemma fetchLoop_never_returns:
  assumes same: "\<forall>n. rest_get env n guildId None = Fulfilled page"
    and full: "length page = PAGE_LIMIT"
    and anon: "\<not> truthy (user_id (last page))"
  shows "acc \<noteq> [] \<Longrightarrow> last acc = last page \<Longrightarrow> fetchLoop env guildId page acc s = None"
proof -
  have ne: "page \<noteq> []" using full by (rule full_page_not_empty)
  have never: "\<not> (e = env \<and> g = guildId \<and> p = page \<and> a \<noteq> [] \<and> last a = last page)"
    if ret: "fetchLoop e g p a t = Some y" for e g p a t y
  proof (rule fetchLoop.raw_induct [where P = "\<lambda>e g p a t y.
      \<not> (e = env \<and> g = guildId \<and> p = page \<and> a \<noteq> [] \<and> last a = last page)", OF _ ret])
    fix loop :: "collaborators \<Rightarrow> string \<Rightarrow> APIGuildMember list \<Rightarrow> APIGuildMember list \<Rightarrow> state
        \<Rightarrow> (APIGuildMember list settled \<times> state) option"
      and e g and p a :: "APIGuildMember list" and t :: state and y
    assume IH: "\<And>e g p a t y. loop e g p a t = Some y \<Longrightarrow>
        \<not> (e = env \<and> g = guildId \<and> p = page \<and> a \<noteq> [] \<and> last a = last page)"
      and body: "(if length p = PAGE_LIMIT then
          (if a = [] then Some (Rejected ''TypeError'', t)
           else
             (case fetchGuildMembersPage e g (user_id (last a)) t of
                (Rejected reason, s') \<Rightarrow> Some (Rejected reason, s')
              | (Fulfilled page', s') \<Rightarrow> loop e g page' (a @ page') s'))
        else Some (Fulfilled a, t)) = Some y"
    show "\<not> (e = env \<and> g = guildId \<and> p = page \<and> a \<noteq> [] \<and> last a = last page)"
    proof
      assume inv: "e = env \<and> g = guildId \<and> p = page \<and> a \<noteq> [] \<and> last a = last page"
      with body same full anon
      have "loop env guildId page (a @ page)
              (t\<lparr>requests := requests t @ [GetGuildMembers guildId None]\<rparr>) = Some y"
        by (simp add: fetchGuildMembersPage_def)
      from IH [OF this] ne show False by simp
    qed
  qed
  assume "acc \<noteq> []" "last acc = last page"
  with never [of env guildId page acc s] show ?thesis
    by (cases "fetchLoop env guildId page acc s") auto
qed

lemma fetchAllMembers_never_returns:
  assumes "\<forall>n. rest_get env n guildId None = Fulfilled page"
    and "length page = PAGE_LIMIT"
    and "\<not> truthy (user_id (last page))"
  shows "fetchAllMembers env guildId s = None"
  using assms fetchLoop_never_returns [OF assms, of page] full_page_not_empty [OF assms(2)]
  by (simp add: fetchAllMembers_def fetchGuildMembersPage_def truthy_def)

text \<open>
  C10. The pagination loop returns when the pages served along its cursors are full
  pages whose last member carries an id, followed by a page of fewer than
  \<open>PAGE_LIMIT\<close> members. When the last member fetched so far has no truthy user id,
  the next request after a full page carries no cursor, as the first request did. When
  the client answers the request without a cursor always by the same full page whose
  last member has no user id, the loop never returns.
\<close>

theorem fetchAllMembers_termination:
  "(served env (length (requests s)) guildId None (fullPages @ [lastPage]) \<and>
    (\<forall>p\<in>set fullPages. length p = PAGE_LIMIT \<and> truthy (user_id (last p))) \<and>
    length lastPage < PAGE_LIMIT \<longrightarrow>
      (\<exists>guildMembers s'. fetchAllMembers env guildId s = Some (Fulfilled guildMembers, s'))) \<and>
   (length page = PAGE_LIMIT \<and> guildMembers \<noteq> [] \<and> \<not> truthy (user_id (last guildMembers)) \<and>
    rest_get env (length (requests s)) guildId None = Fulfilled page' \<longrightarrow>
      fetchLoop env guildId page guildMembers s =
        fetchLoop env guildId page' (guildMembers @ page')
          (s\<lparr>requests := requests s @ [GetGuildMembers guildId None]\<rparr>)) \<and>
   ((\<forall>n. rest_get env n guildId None = Fulfilled page) \<and> length page = PAGE_LIMIT \<and>
    \<not> truthy (user_id (last page)) \<longrightarrow>
      fetchAllMembers env guildId s = None)"
proof (intro conjI impI)
  assume a: "served env (length (requests s)) guildId None (fullPages @ [lastPage]) \<and>
    (\<forall>p\<in>set fullPages. length p = PAGE_LIMIT \<and> truthy (user_id (last p))) \<and>
    length lastPage < PAGE_LIMIT"
  then have "\<forall>p\<in>set fullPages. length p = PAGE_LIMIT" and "length lastPage \<noteq> PAGE_LIMIT" by auto
  with a fetchAllMembers_served [of env s guildId fullPages lastPage]
  show "\<exists>guildMembers s'. fetchAllMembers env guildId s = Some (Fulfilled guildMembers, s')"
    by blast
next
  assume "length page = PAGE_LIMIT \<and> guildMembers \<noteq> [] \<and> \<not> truthy (user_id (last guildMembers)) \<and>
    rest_get env (length (requests s)) guildId None = Fulfilled page'"
  then show "fetchLoop env guildId page guildMembers s =
        fetchLoop env guildId page' (guildMembers @ page')
          (s\<lparr>requests := requests s @ [GetGuildMembers guildId None]\<rparr>)"
    by (simp add: fetchLoop_restart_step)
next
  assume "(\<forall>n. rest_get env n guildId None = Fulfilled page) \<and> length page = PAGE_LIMIT \<and>
    \<not> truthy (user_id (last page))"
  then show "fetchAllMembers env guildId s = None"
    by (simp add: fetchAllMembers_never_returns)
qed

theorem fetchAllMembers_pages_witness:
  "(\<exists>guildMembers s'.
      fetchAllMembers pagedGuild ''g'' exampleState = Some (Fulfilled guildMembers, s') \<and>
      length guildMembers = 2037 \<and>
      requests s' = [GetGuildMembers ''g'' None, GetGuildMembers ''g'' (Some ''1000''),
                     GetGuildMembers ''g'' (Some ''2000'')]) \<and>
   (\<exists>guildMembers s'.
      fetchAllMembers acceptingSink ''g'' exampleState = Some (Fulfilled guildMembers, s') \<and>
      length guildMembers = 2 \<and> requests s' = [GetGuildMembers ''g'' None])"
  using fetchAllMembers_pages [where env = pagedGuild and guildId = "''g''" and s = exampleState
      and fullPages = "[replicate 1000 \<lparr>user_id = Some ''1000'', member_roles = []\<rparr>,
                        replicate 1000 \<lparr>user_id = Some ''2000'', member_roles = []\<rparr>]"
      and lastPage = "replicate 37 \<lparr>user_id = Some ''2037'', member_roles = []\<rparr>"]
    fetchAllMembers_pages [where env = acceptingSink and guildId = "''g''" and s = exampleState
      and fullPages = "[]"
      and lastPage = "[\<lparr>user_id = Some ''1'', member_roles = [''mod'', ''admin'']\<rparr>,
                       \<lparr>user_id = Some ''3'', member_roles = [''mod'', ''vip'']\<rparr>]"]
  by (simp add: pagedGuild_def acceptingSink_def exampleState_def PAGE_LIMIT_def cursorAfter_def
      truthy_def)

theorem fetchAllMembers_termination_witness:
  "(\<exists>guildMembers s'.
      fetchAllMembers pagedGuild ''g'' exampleState = Some (Fulfilled guildMembers, s')) \<and>
   fetchAllMembers anonymousGuild ''g'' exampleState = None"
  using fetchAllMembers_termination [where env = pagedGuild and guildId = "''g''" and s = exampleState
      and fullPages = "[replicate 1000 \<lparr>user_id = Some ''1000'', member_roles = []\<rparr>,
                        replicate 1000 \<lparr>user_id = Some ''2000'', member_roles = []\<rparr>]"
      and lastPage = "replicate 37 \<lparr>user_id = Some ''2037'', member_roles = []\<rparr>"]
    fetchAllMembers_termination [where env = anonymousGuild and guildId = "''g''" and s = exampleState
      and page = "replicate 1000 \<lparr>user_id = None, member_roles = []\<rparr>"]
  by (simp add: pagedGuild_def anonymousGuild_def exampleState_def PAGE_LIMIT_def cursorAfter_def
      truthy_def)

subsection \<open>The loop over the guilds\<close>

lemma initialSync_append:
  "initialSync env (before @ remaining) s =
     (case initialSync env before s of
        None \<Rightarrow> None
      | Some (Rejected reason, s') \<Rightarrow> Some (Rejected reason, s')
      | Some (Fulfilled u, s') \<Rightarrow> initialSync env remaining s')"
  by (induction before arbitrary: s) (auto split: option.splits settled.splits prod.splits)

text \<open>
  C4, amended. When the guilds before have been reconciled and the fetch of a guild is
  rejected, \<open>initialSync\<close> is rejected with the reason of the fetch and stops in the
  state the fetch left: no request is made, and nothing is written, for that guild or
  for any guild after it.
\<close>

theorem fetch_error_aborts_initialSync:
  assumes "initialSync env before s = Some (Fulfilled (), s1)"
    and "fetchAllMembers env guildId (s1\<lparr>console := console s1 @ [LogSyncingGuild guildId]\<rparr>) =
           Some (Rejected reason, s2)"
  shows "initialSync env (before @ guildId # remaining) s = Some (Rejected reason, s2)"
  using assms by (simp add: initialSync_append syncGuild_def)

text \<open>
  C4 as stated fails. Guild \<open>a\<close> cannot be fetched: \<open>initialSync\<close> is rejected, and
  guild \<open>g\<close>, next in the list, is never fetched, synced or pruned.
\<close>

theorem fetch_error_counterexample:
  "initialSync unknownGuild [''a'', ''g''] exampleState =
     Some (Rejected ''Unknown Guild'',
           exampleState\<lparr>requests := [GetGuildMembers ''a'' None],
             console := [LogSyncingGuild ''a'']\<rparr>)"
  by (simp add: unknownGuild_def exampleState_def syncGuild_def fetchAllMembers_def
      fetchGuildMembersPage_def truthy_def)

theorem fetch_error_aborts_initialSync_witness:
  "initialSync unknownGuild [''h'', ''a'', ''g''] exampleState =
     Some (Rejected ''Unknown Guild'',
           \<lparr>rolesCache = [(''g:1'', [''admin'', ''mod'']), (''g:2'', []), (''g:3'', [''mod''])],
            requests = [GetGuildMembers ''h'' None, Delete ''h'' ''1'', GetGuildMembers ''a'' None],
            console = [LogSyncingGuild ''h'', LogFoundMembers 0 ''h'', LogRemoved ''1'' ''h'',
                       LogSyncingGuild ''a'']\<rparr>)"
  using fetch_error_aborts_initialSync [where env = unknownGuild and before = "[''h'']"
      and s = exampleState and guildId = "''a''" and remaining = "[''g'']"
      and reason = "''Unknown Guild''"
      and ?s1.0 = "\<lparr>rolesCache = [(''g:1'', [''admin'', ''mod'']), (''g:2'', []), (''g:3'', [''mod''])],
            requests = [GetGuildMembers ''h'' None, Delete ''h'' ''1''],
            console = [LogSyncingGuild ''h'', LogFoundMembers 0 ''h'', LogRemoved ''1'' ''h'']\<rparr>"
      and ?s2.0 = "\<lparr>rolesCache = [(''g:1'', [''admin'', ''mod'']), (''g:2'', []), (''g:3'', [''mod''])],
            requests = [GetGuildMembers ''h'' None, Delete ''h'' ''1'', GetGuildMembers ''a'' None],
            console = [LogSyncingGuild ''h'', LogFoundMembers 0 ''h'', LogRemoved ''1'' ''h'',
                       LogSyncingGuild ''a'']\<rparr>"]
  by (simp add: unknownGuild_def acceptingSink_def exampleState_def syncGuild_def
      fetchAllMembers_def fetchGuildMembersPage_def fetchLoop.simps PAGE_LIMIT_def truthy_def
      syncAndPrune_def syncAllSettled_def syncCalls_def List.map_filter_def discordUserIds_def
      cachedKeys_def startsWith_def discordIdOfKey_def removeUserRoles_def cacheKey_def)

subsection \<open>Reading the keys back\<close>

lemma js_split_noColon: "noColon str \<Longrightarrow> js_split CHR '':'' str = [str]"
  by (induction str) (auto simp: noColon_def)

lemma js_split_cacheKey:
  "noColon guildId \<Longrightarrow>
   js_split CHR '':'' (cacheKey guildId discordId) = guildId # js_split CHR '':'' discordId"
  by (induction guildId) (auto simp: noColon_def cacheKey_def)

lemma discordIdOfKey_cacheKey:
  "noColon guildId \<Longrightarrow> noColon discordId \<Longrightarrow> discordIdOfKey (cacheKey guildId discordId) = discordId"
  by (simp add: discordIdOfKey_def js_split_cacheKey js_split_noColon)

lemma startsWith_cacheKey: "startsWith (cacheKey guildId discordId) (guildId @ '':'')"
  by (simp add: startsWith_def cacheKey_def)

lemma startsWith_is_cacheKey:
  "startsWith key (guildId @ '':'') \<Longrightarrow> key = cacheKey guildId (drop (length guildId + 1) key)"
proof -
  assume "startsWith key (guildId @ '':'')"
  then have "take (length guildId + 1) key = guildId @ '':''" by (simp add: startsWith_def)
  then have "key = (guildId @ '':'') @ drop (length guildId + 1) key"
    by (metis append_take_drop_id)
  then show ?thesis by (simp add: cacheKey_def)
qed

lemma oneColon_cacheKey:
  "noColon guildId \<Longrightarrow> oneColon (cacheKey guildId discordId) = noColon discordId"
  by (auto simp: oneColon_def noColon_def cacheKey_def filter_empty_conv)

lemma cacheKey_guild_unique:
  assumes "noColon g" and "noColon g'" and "cacheKey g d = cacheKey g' d'"
  shows "g = g' \<and> d = d'"
proof -
  have "takeWhile (\<lambda>c. c \<noteq> CHR '':'') (cacheKey g d) = g"
    using assms(1) by (auto simp: cacheKey_def noColon_def takeWhile_tail takeWhile_eq_all_conv)
  moreover have "takeWhile (\<lambda>c. c \<noteq> CHR '':'') (cacheKey g' d') = g'"
    using assms(2) by (auto simp: cacheKey_def noColon_def takeWhile_tail takeWhile_eq_all_conv)
  ultimately have "g = g'" using assms(3) by simp
  with assms(3) show ?thesis by (simp add: cacheKey_def)
qed

lemma startsWith_cacheKey_iff:
  assumes "noColon g" and "noColon g'"
  shows "startsWith (cacheKey g' d) (g @ '':'') \<longleftrightarrow> g' = g"
proof
  assume "startsWith (cacheKey g' d) (g @ '':'')"
  from startsWith_is_cacheKey [OF this] cacheKey_guild_unique [OF assms(2,1)]
  show "g' = g" by blast
qed (simp add: startsWith_cacheKey)

text \<open>A key of the cache of guild g with exactly one colon reads back its member id.\<close>

lemma cached_key_reads_back:
  assumes "noColon g" and "oneColon key" and "startsWith key (g @ '':'')"
  shows "key = cacheKey g (discordIdOfKey key)"
proof -
  let ?d = "drop (length g + 1) key"
  have key: "key = cacheKey g ?d" using assms(3) by (rule startsWith_is_cacheKey)
  with assms(1,2) have "noColon ?d" by (metis oneColon_cacheKey)
  with assms(1) have "discordIdOfKey (cacheKey g ?d) = ?d" by (rule discordIdOfKey_cacheKey)
  with key show ?thesis by simp
qed

lemma cachedKeys_iff:
  "key \<in> set (cachedKeys g cache) \<longleftrightarrow> key \<in> fst ` set cache \<and> startsWith key (g @ '':'')"
  by (auto simp: cachedKeys_def)

lemma set_staleIds:
  assumes "noColon g" and "\<forall>key\<in>fst ` set cache. oneColon key"
  shows "set (staleIds g ids cache) = {d. cacheKey g d \<in> fst ` set cache \<and> d \<notin> ids}"
proof (intro set_eqI iffI)
  fix d assume "d \<in> set (staleIds g ids cache)"
  then obtain key where k: "key \<in> set (cachedKeys g cache)" "d = discordIdOfKey key" "d \<notin> ids"
    by (auto simp: staleIds_def)
  then have in_cache: "key \<in> fst ` set cache" and pre: "startsWith key (g @ '':'')"
    by (simp_all add: cachedKeys_iff)
  from in_cache assms(2) have "oneColon key" by blast
  with assms(1) pre have "key = cacheKey g d" unfolding k(2) by (intro cached_key_reads_back)
  with in_cache k(3) show "d \<in> {d. cacheKey g d \<in> fst ` set cache \<and> d \<notin> ids}" by simp
next
  fix d assume "d \<in> {d. cacheKey g d \<in> fst ` set cache \<and> d \<notin> ids}"
  then have c: "cacheKey g d \<in> fst ` set cache" and n: "d \<notin> ids" by simp_all
  from c assms(2) have "oneColon (cacheKey g d)" by blast
  with assms(1) have "noColon d" by (simp add: oneColon_cacheKey)
  with assms(1) have "discordIdOfKey (cacheKey g d) = d" by (rule discordIdOfKey_cacheKey)
  moreover from c have "cacheKey g d \<in> set (cachedKeys g cache)"
    by (simp add: cachedKeys_iff startsWith_cacheKey)
  ultimately show "d \<in> set (staleIds g ids cache)" using n
    by (force simp: staleIds_def)
qed

subsection \<open>The pruning loop\<close>

lemma delete_filter:
  "AList.delete key cache = filter (\<lambda>entry. fst entry \<noteq> key) cache"
  by (induction cache) auto

lemma pruneLoop_run:
  assumes nr: "\<And>n d. \<not> is_rejected (supabase_delete env n g d)"
  shows "fst (pruneLoop env g ids keys s) = Fulfilled () \<and>
         requests (snd (pruneLoop env g ids keys s)) =
           requests s @ map (Delete g) (filter (\<lambda>d. d \<notin> ids) (map discordIdOfKey keys)) \<and>
         rolesCache (snd (pruneLoop env g ids keys s)) =
           filter (\<lambda>entry. fst entry \<notin> cacheKey g `
               set (confirmedDeletes env (length (requests s)) g
                      (filter (\<lambda>d. d \<notin> ids) (map discordIdOfKey keys))))
             (rolesCache s)"
proof (induction keys arbitrary: s)
  case Nil
  show ?case by simp
next
  case (Cons key keys)
  let ?d = "discordIdOfKey key"
  show ?case
  proof (cases "?d \<in> ids")
    case True
    with Cons.IH [of s] show ?thesis by simp
  next
    case False
    let ?s1 = "s\<lparr>requests := requests s @ [Delete g ?d]\<rparr>"
    show ?thesis
    proof (cases "supabase_delete env (length (requests s)) g ?d")
      case (Rejected reason)
      with nr [of "length (requests s)" ?d] show ?thesis by simp
    next
      case (Fulfilled err)
      show ?thesis
      proof (cases err)
        case None
        let ?s2 = "?s1\<lparr>rolesCache := AList.delete (cacheKey g ?d) (rolesCache ?s1),
                       console := console ?s1 @ [LogRemoved ?d g]\<rparr>"
        have "pruneLoop env g ids (key # keys) s = pruneLoop env g ids keys ?s2"
          using False Fulfilled None by (simp add: removeUserRoles_def)
        with Cons.IH [of ?s2] False Fulfilled None show ?thesis
          by (simp add: delete_filter conj_commute)
      next
        case (Some message)
        let ?s2 = "?s1\<lparr>console := console ?s1 @ [ErrorFailedToRemove ?d g message]\<rparr>"
        have "pruneLoop env g ids (key # keys) s = pruneLoop env g ids keys ?s2"
          using False Fulfilled Some by (simp add: removeUserRoles_def)
        with Cons.IH [of ?s2] False Fulfilled Some show ?thesis by simp
      qed
    qed
  qed
qed

lemma confirmedDeletes_all:
  "(\<And>n d. supabase_delete env n g d = Fulfilled None) \<Longrightarrow> confirmedDeletes env n g ds = ds"
  by (induction ds arbitrary: n) simp_all

lemma image_restrict: "k \<in> K \<Longrightarrow> (k \<in> f ` {d. f d \<in> K \<and> P d}) = (k \<in> f ` {d. P d})"
  by auto

text \<open>
  The pruning loop over the cached keys of a guild, for any set of fetched ids: what
  it requests and what it removes.
\<close>

lemma pruneLoop_stale:
  assumes "noColon guildId"
    and "\<forall>key\<in>fst ` set (rolesCache s). oneColon key"
    and "\<forall>n discordId. \<not> is_rejected (supabase_delete env n guildId discordId)"
  shows "case pruneLoop env guildId ids (cachedKeys guildId (rolesCache s)) s of
           (outcome, s') \<Rightarrow>
             outcome = Fulfilled () \<and>
             requests s' = requests s @ map (Delete guildId) (staleIds guildId ids (rolesCache s)) \<and>
             set (staleIds guildId ids (rolesCache s)) =
               {discordId. cacheKey guildId discordId \<in> fst ` set (rolesCache s) \<and> discordId \<notin> ids} \<and>
             rolesCache s' =
               filter (\<lambda>entry. fst entry \<notin> cacheKey guildId `
                   set (confirmedDeletes env (length (requests s)) guildId
                          (staleIds guildId ids (rolesCache s))))
                 (rolesCache s) \<and>
             ((\<forall>n discordId. supabase_delete env n guildId discordId = Fulfilled None) \<longrightarrow>
                rolesCache s' =
                  filter (\<lambda>entry. fst entry \<notin> cacheKey guildId ` {discordId. discordId \<notin> ids})
                    (rolesCache s))"
proof -
  let ?stale = "staleIds guildId ids (rolesCache s)"
  let ?run = "pruneLoop env guildId ids (cachedKeys guildId (rolesCache s)) s"
  have run: "fst ?run = Fulfilled ()"
    "requests (snd ?run) = requests s @ map (Delete guildId) ?stale"
    "rolesCache (snd ?run) =
       filter (\<lambda>entry. fst entry \<notin> cacheKey guildId `
           set (confirmedDeletes env (length (requests s)) guildId ?stale)) (rolesCache s)"
    using pruneLoop_run [of env guildId ids "cachedKeys guildId (rolesCache s)" s] assms(3)
    by (simp_all add: staleIds_def)
  have stale: "set ?stale =
      {discordId. cacheKey guildId discordId \<in> fst ` set (rolesCache s) \<and> discordId \<notin> ids}"
    using assms(1,2) by (rule set_staleIds)
  have all: "rolesCache (snd ?run) =
      filter (\<lambda>entry. fst entry \<notin> cacheKey guildId ` {discordId. discordId \<notin> ids}) (rolesCache s)"
    if ok: "\<forall>n discordId. supabase_delete env n guildId discordId = Fulfilled None"
  proof -
    have "confirmedDeletes env (length (requests s)) guildId ?stale = ?stale"
      using ok by (simp add: confirmedDeletes_all)
    with run(3) have "rolesCache (snd ?run) =
        filter (\<lambda>entry. fst entry \<notin> cacheKey guildId ` set ?stale) (rolesCache s)" by simp
    also have "\<dots> = filter (\<lambda>entry. fst entry \<notin> cacheKey guildId ` {discordId. discordId \<notin> ids})
        (rolesCache s)"
    proof (rule filter_cong [OF refl])
      fix entry assume "entry \<in> set (rolesCache s)"
      then have "fst entry \<in> fst ` set (rolesCache s)" by simp
      then show "(fst entry \<notin> cacheKey guildId ` set ?stale) =
          (fst entry \<notin> cacheKey guildId ` {discordId. discordId \<notin> ids})"
        unfolding stale by (simp only: image_restrict)
    qed
    finally show ?thesis .
  qed
  from run stale all show ?thesis by (simp add: case_prod_beta)
qed

subsection \<open>Syncing the members of a guild\<close>

lemma startSyncs_eq:
  "startSyncs g calls s =
     (List.enumerate (length (requests s))
        (filter (\<lambda>call. \<not> rolesUnchanged (rolesCache s) (cacheKey g (fst call)) (snd call)) calls),
      s\<lparr>requests := requests s @
           map (\<lambda>call. Upsert g (fst call) (snd call))
             (filter (\<lambda>call. \<not> rolesUnchanged (rolesCache s) (cacheKey g (fst call)) (snd call))
                calls)\<rparr>)"
proof (induction calls arbitrary: s)
  case Nil
  show ?case by simp
next
  case (Cons call calls)
  obtain d r where call: "call = (d, r)" by (cases call)
  show ?case
  proof (cases "rolesUnchanged (rolesCache s) (cacheKey g d) r")
    case True
    then show ?thesis unfolding call by (simp add: Cons.IH)
  next
    case False
    then show ?thesis unfolding call by (simp add: Cons.IH)
  qed
qed

lemma settleSyncs_Cons_snd:
  "snd (settleSyncs env g (w # waiting) s) =
     snd (settleSyncs env g waiting
            (snd (upsertUserRoles_resume g (fst (snd w)) (snd (snd w))
                    (supabase_upsert env (fst w) g (fst (snd w)) (snd (snd w))) s)))"
  by (cases w) (simp split: prod.splits)

lemma settleSyncs_Cons_fst:
  "fst (settleSyncs env g (w # waiting) s) =
     fst (upsertUserRoles_resume g (fst (snd w)) (snd (snd w))
            (supabase_upsert env (fst w) g (fst (snd w)) (snd (snd w))) s) #
     fst (settleSyncs env g waiting
            (snd (upsertUserRoles_resume g (fst (snd w)) (snd (snd w))
                    (supabase_upsert env (fst w) g (fst (snd w)) (snd (snd w))) s)))"
  by (cases w) (simp split: prod.splits)

lemma upsertUserRoles_resume_requests:
  "requests (snd (upsertUserRoles_resume g d r answer s)) = requests s"
  by (simp add: upsertUserRoles_resume_def split: settled.splits option.splits)

lemma upsertUserRoles_resume_keys:
  "fst ` set (rolesCache (snd (upsertUserRoles_resume g d r answer s))) =
     fst ` set (rolesCache s) \<union> (if answer = Fulfilled None then {cacheKey g d} else {})"
  by (simp add: upsertUserRoles_resume_def dom_update split: settled.splits option.splits)

lemma upsertUserRoles_resume_other:
  "d \<noteq> d0 \<Longrightarrow>
   map_of (rolesCache (snd (upsertUserRoles_resume g d r answer s))) (cacheKey g d0) =
     map_of (rolesCache s) (cacheKey g d0)"
  by (simp add: upsertUserRoles_resume_def update_conv' cacheKey_def
      split: settled.splits option.splits)

lemma upsertUserRoles_resume_confirmed:
  "map_of (rolesCache (snd (upsertUserRoles_resume g d r (Fulfilled None) s))) (cacheKey g d) = Some r"
  by (simp add: upsertUserRoles_resume_def update_conv')

lemma upsertUserRoles_resume_outcome:
  "is_rejected (fst (upsertUserRoles_resume g d r answer s)) = is_rejected answer"
  by (simp add: upsertUserRoles_resume_def split: settled.splits option.splits)

lemma settleSyncs_requests: "requests (snd (settleSyncs env g waiting s)) = requests s"
proof (induction waiting arbitrary: s)
  case Nil
  show ?case by simp
next
  case (Cons w ws)
  show ?case
    by (simp only: settleSyncs_Cons_snd Cons.IH upsertUserRoles_resume_requests)
qed

lemma settleSyncs_keys:
  "fst ` set (rolesCache (snd (settleSyncs env g waiting s))) =
     fst ` set (rolesCache s) \<union>
     (\<lambda>w. cacheKey g (fst (snd w))) `
       {w \<in> set waiting. supabase_upsert env (fst w) g (fst (snd w)) (snd (snd w)) = Fulfilled None}"
proof (induction waiting arbitrary: s)
  case Nil
  show ?case by simp
next
  case (Cons w ws)
  have "{v \<in> set (w # ws). supabase_upsert env (fst v) g (fst (snd v)) (snd (snd v)) = Fulfilled None} =
      (if supabase_upsert env (fst w) g (fst (snd w)) (snd (snd w)) = Fulfilled None then {w} else {}) \<union>
      {v \<in> set ws. supabase_upsert env (fst v) g (fst (snd v)) (snd (snd v)) = Fulfilled None}"
    by auto
  then show ?case
    by (simp only: settleSyncs_Cons_snd Cons.IH upsertUserRoles_resume_keys image_Un)
      (simp add: Un_assoc)
qed

lemma settleSyncs_untouched:
  "\<forall>w\<in>set waiting. fst (snd w) \<noteq> d0 \<Longrightarrow>
   map_of (rolesCache (snd (settleSyncs env g waiting s))) (cacheKey g d0) =
     map_of (rolesCache s) (cacheKey g d0)"
proof (induction waiting arbitrary: s)
  case Nil
  show ?case by simp
next
  case (Cons w ws)
  from Cons.prems have w: "fst (snd w) \<noteq> d0" and ws: "\<forall>w\<in>set ws. fst (snd w) \<noteq> d0"
    by simp_all
  show ?case
    by (simp only: settleSyncs_Cons_snd Cons.IH [OF ws] upsertUserRoles_resume_other [OF w])
qed

lemma settleSyncs_value:
  assumes "w \<in> set waiting"
    and "supabase_upsert env (fst w) g (fst (snd w)) (snd (snd w)) = Fulfilled None"
    and "\<forall>v\<in>set waiting. fst (snd v) = fst (snd w) \<longrightarrow> v = w"
  shows "map_of (rolesCache (snd (settleSyncs env g waiting s))) (cacheKey g (fst (snd w))) =
           Some (snd (snd w))"
  using assms(1,3)
proof (induction waiting arbitrary: s)
  case Nil
  then show ?case by simp
next
  case (Cons v vs)
  let ?s1 = "snd (upsertUserRoles_resume g (fst (snd v)) (snd (snd v))
                    (supabase_upsert env (fst v) g (fst (snd v)) (snd (snd v))) s)"
  show ?case
  proof (cases "w \<in> set vs")
    case True
    moreover from Cons.prems(2) have "\<forall>u\<in>set vs. fst (snd u) = fst (snd w) \<longrightarrow> u = w" by simp
    ultimately show ?thesis
      by (simp only: settleSyncs_Cons_snd Cons.IH)
  next
    case False
    with Cons.prems have eq: "v = w" and none: "\<forall>u\<in>set vs. fst (snd u) \<noteq> fst (snd w)"
      by auto
    have "map_of (rolesCache ?s1) (cacheKey g (fst (snd w))) = Some (snd (snd w))"
      unfolding eq assms(2) by (rule upsertUserRoles_resume_confirmed)
    then show ?thesis
      by (simp only: settleSyncs_Cons_snd settleSyncs_untouched [OF none])
  qed
qed

lemma settleSyncs_rejected:
  "length (filter is_rejected (fst (settleSyncs env g waiting s))) =
     length (filter (\<lambda>w. is_rejected (supabase_upsert env (fst w) g (fst (snd w)) (snd (snd w))))
               waiting)"
proof (induction waiting arbitrary: s)
  case Nil
  show ?case by simp
next
  case (Cons w ws)
  show ?case
    unfolding settleSyncs_Cons_fst
    by (simp add: Cons.IH upsertUserRoles_resume_outcome del: settleSyncs.simps)
qed

lemma syncAllSettled_eq:
  "syncAllSettled env g guildMembers s =
     settleSyncs env g
       (sort_key (\<lambda>call. arrival env (fst call))
          (List.enumerate (length (requests s)) (changedCalls g (rolesCache s) guildMembers)))
       (s\<lparr>requests := requests s @
            map (\<lambda>call. Upsert g (fst call) (snd call)) (changedCalls g (rolesCache s) guildMembers)\<rparr>)"
  unfolding syncAllSettled_def startSyncs_eq changedCalls_def by simp

text \<open>
  The syncs of the members that changed, by their position among the changed calls.
\<close>

lemma syncAllSettled_changed:
  "(let changed = changedCalls guildId (rolesCache s) guildMembers
    in case syncAllSettled env guildId guildMembers s of
         (syncResults, s1) \<Rightarrow>
           requests s1 = requests s @ map (\<lambda>call. Upsert guildId (fst call) (snd call)) changed \<and>
           (\<forall>i<length changed.
              supabase_upsert env (length (requests s) + i) guildId (fst (changed ! i))
                (snd (changed ! i)) = Fulfilled None \<longrightarrow>
                cacheKey guildId (fst (changed ! i)) \<in> fst ` set (rolesCache s1) \<and>
                ((\<forall>j<length changed. fst (changed ! j) = fst (changed ! i) \<longrightarrow> j = i) \<longrightarrow>
                   map_of (rolesCache s1) (cacheKey guildId (fst (changed ! i))) =
                     Some (snd (changed ! i)))) \<and>
           length (filter is_rejected syncResults) =
             length (filter (\<lambda>w. is_rejected (supabase_upsert env (fst w) guildId (fst (snd w))
                                     (snd (snd w))))
                       (List.enumerate (length (requests s)) changed)) \<and>
           syncAndPrune env guildId guildMembers s =
             pruneLoop env guildId (discordUserIds guildMembers) (cachedKeys guildId (rolesCache s1))
               (if length (filter is_rejected syncResults) > 0
                then s1\<lparr>console := console s1 @
                        [ErrorFailedToSync (length (filter is_rejected syncResults)) guildId]\<rparr>
                else s1))"
proof -
  define changed where "changed = changedCalls guildId (rolesCache s) guildMembers"
  define waiting where
    "waiting = sort_key (\<lambda>call. arrival env (fst call)) (List.enumerate (length (requests s)) changed)"
  define s0 where
    "s0 = s\<lparr>requests := requests s @ map (\<lambda>call. Upsert guildId (fst call) (snd call)) changed\<rparr>"
  define run where "run = settleSyncs env guildId waiting s0"
  have run: "syncAllSettled env guildId guildMembers s = run"
    unfolding run_def waiting_def s0_def changed_def by (rule syncAllSettled_eq)
  have set_waiting: "set waiting = set (List.enumerate (length (requests s)) changed)"
    by (simp add: waiting_def)
  have reqs: "requests (snd run) =
      requests s @ map (\<lambda>call. Upsert guildId (fst call) (snd call)) changed"
    unfolding run_def settleSyncs_requests by (simp add: s0_def)
  have synced: "cacheKey guildId (fst (changed ! i)) \<in> fst ` set (rolesCache (snd run)) \<and>
      ((\<forall>j<length changed. fst (changed ! j) = fst (changed ! i) \<longrightarrow> j = i) \<longrightarrow>
         map_of (rolesCache (snd run)) (cacheKey guildId (fst (changed ! i))) =
           Some (snd (changed ! i)))"
    if i: "i < length changed"
      and ok: "supabase_upsert env (length (requests s) + i) guildId (fst (changed ! i))
                 (snd (changed ! i)) = Fulfilled None" for i
  proof -
    define w where "w = (length (requests s) + i, changed ! i)"
    have w_simps: "fst w = length (requests s) + i" "fst (snd w) = fst (changed ! i)"
      "snd (snd w) = snd (changed ! i)" by (simp_all add: w_def)
    have mem: "w \<in> set waiting"
      using i by (simp add: set_waiting in_set_enumerate_eq w_def)
    have okw: "supabase_upsert env (fst w) guildId (fst (snd w)) (snd (snd w)) = Fulfilled None"
      using ok by (simp only: w_simps)
    have "cacheKey guildId (fst (snd w)) \<in> fst ` set (rolesCache (snd run))"
      unfolding run_def settleSyncs_keys using mem okw by blast
    then have key: "cacheKey guildId (fst (changed ! i)) \<in> fst ` set (rolesCache (snd run))"
      by (simp only: w_simps)
    have val: "map_of (rolesCache (snd run)) (cacheKey guildId (fst (changed ! i))) =
        Some (snd (changed ! i))"
      if uniq: "\<forall>j<length changed. fst (changed ! j) = fst (changed ! i) \<longrightarrow> j = i"
    proof -
      have only: "\<forall>v\<in>set waiting. fst (snd v) = fst (snd w) \<longrightarrow> v = w"
      proof (intro ballI impI)
        fix v assume v: "v \<in> set waiting" and d: "fst (snd v) = fst (snd w)"
        from v have lo: "length (requests s) \<le> fst v"
          and hi: "fst v - length (requests s) < length changed"
          and at: "changed ! (fst v - length (requests s)) = snd v"
          by (auto simp: set_waiting in_set_enumerate_eq)
        from d at have "fst (changed ! (fst v - length (requests s))) = fst (changed ! i)"
          by (simp add: w_simps)
        with uniq hi have "fst v - length (requests s) = i" by blast
        with lo at have "fst v = length (requests s) + i" "snd v = changed ! i" by auto
        then show "v = w" by (simp add: w_def prod_eq_iff)
      qed
      have "map_of (rolesCache (snd run)) (cacheKey guildId (fst (snd w))) = Some (snd (snd w))"
        unfolding run_def by (rule settleSyncs_value [OF mem okw only])
      then show ?thesis by (simp only: w_simps)
    qed
    from key val show ?thesis by blast
  qed
  have count: "length (filter is_rejected (fst run)) =
      length (filter (\<lambda>w. is_rejected (supabase_upsert env (fst w) guildId (fst (snd w)) (snd (snd w))))
                (List.enumerate (length (requests s)) changed))"
    unfolding run_def settleSyncs_rejected waiting_def filter_sort by simp
  have prune: "syncAndPrune env guildId guildMembers s =
      pruneLoop env guildId (discordUserIds guildMembers) (cachedKeys guildId (rolesCache (snd run)))
        (if length (filter is_rejected (fst run)) > 0
         then (snd run)\<lparr>console := console (snd run) @
                 [ErrorFailedToSync (length (filter is_rejected (fst run))) guildId]\<rparr>
         else snd run)"
    unfolding syncAndPrune_def run by (simp add: case_prod_beta Let_def)
  have all: "requests (snd run) =
        requests s @ map (\<lambda>call. Upsert guildId (fst call) (snd call)) changed \<and>
      (\<forall>i<length changed.
         supabase_upsert env (length (requests s) + i) guildId (fst (changed ! i))
           (snd (changed ! i)) = Fulfilled None \<longrightarrow>
           cacheKey guildId (fst (changed ! i)) \<in> fst ` set (rolesCache (snd run)) \<and>
           ((\<forall>j<length changed. fst (changed ! j) = fst (changed ! i) \<longrightarrow> j = i) \<longrightarrow>
              map_of (rolesCache (snd run)) (cacheKey guildId (fst (changed ! i))) =
                Some (snd (changed ! i)))) \<and>
      length (filter is_rejected (fst run)) =
        length (filter (\<lambda>w. is_rejected (supabase_upsert env (fst w) guildId (fst (snd w))
                                (snd (snd w))))
                  (List.enumerate (length (requests s)) changed)) \<and>
      syncAndPrune env guildId guildMembers s =
        pruneLoop env guildId (discordUserIds guildMembers) (cachedKeys guildId (rolesCache (snd run)))
          (if length (filter is_rejected (fst run)) > 0
           then (snd run)\<lparr>console := console (snd run) @
                   [ErrorFailedToSync (length (filter is_rejected (fst run))) guildId]\<rparr>
           else snd run)"
    using reqs synced count prune by (intro conjI allI impI) blast+
  show ?thesis
    unfolding Let_def changed_def [symmetric] run case_prod_beta by (rule all)
qed

subsection \<open>Loading the cache and staleness\<close>

lemma discordUserIds_iff:
  "d \<in> discordUserIds guildMembers \<longleftrightarrow> d \<noteq> [] \<and> (\<exists>member\<in>set guildMembers. user_id member = Some d)"
  unfolding discordUserIds_def
  by (induction guildMembers) (auto simp: truthy_def split: option.splits)

lemma loadRows_key_origin:
  "key \<in> fst ` set (loadRows rows cache) \<Longrightarrow>
   key \<in> fst ` set cache \<or>
   (\<exists>row\<in>set rows. \<exists>g d. guild_snowflake row = Some g \<and> discord_id row = Some d \<and>
      g \<noteq> [] \<and> d \<noteq> [] \<and> key = cacheKey g d)"
proof (induction rows arbitrary: cache)
  case Nil
  then show ?case by simp
next
  case (Cons row rows)
  show ?case
  proof (cases "\<exists>g d. guild_snowflake row = Some g \<and> discord_id row = Some d \<and> g \<noteq> [] \<and> d \<noteq> []")
    case True
    then obtain g d where gd: "guild_snowflake row = Some g" "discord_id row = Some d" "g \<noteq> []" "d \<noteq> []"
      by blast
    let ?cache = "AList.update (cacheKey g d) (case discord_role row of None \<Rightarrow> [] | Some rs \<Rightarrow> rs) cache"
    from gd have "loadRows (row # rows) cache = loadRows rows ?cache" by simp
    with Cons.prems have "key \<in> fst ` set (loadRows rows ?cache)" by simp
    from Cons.IH [OF this] show ?thesis
    proof
      assume "key \<in> fst ` set ?cache"
      then have "key = cacheKey g d \<or> key \<in> fst ` set cache" by (simp add: dom_update)
      with gd show ?thesis by auto
    next
      assume "\<exists>row\<in>set rows. \<exists>g d. guild_snowflake row = Some g \<and> discord_id row = Some d \<and>
          g \<noteq> [] \<and> d \<noteq> [] \<and> key = cacheKey g d"
      then show ?thesis by auto
    qed
  next
    case False
    then have "loadRows (row # rows) cache = loadRows rows cache"
      by (auto split: option.splits)
    with Cons.prems have "key \<in> fst ` set (loadRows rows cache)" by simp
    from Cons.IH [OF this] show ?thesis by auto
  qed
qed

text \<open>
  C9, amended. For rows whose guild and member ids contain no colon, and a guild id
  without a colon: in the cache loaded from the rows, no key of the guild is stale
  against the member list made of exactly the member ids of the rows of that guild.
\<close>

theorem load_then_stale_empty:
  assumes "noColon guildId" and "\<forall>row\<in>set rows. wellFormedRow row"
  shows "staleIds guildId (discordUserIds (membersOfRows guildId rows)) (loadRows rows []) = []"
proof -
  have "discordIdOfKey key \<in> discordUserIds (membersOfRows guildId rows)"
    if "key \<in> set (cachedKeys guildId (loadRows rows []))" for key
  proof -
    from that have cached: "key \<in> fst ` set (loadRows rows [])"
      and pre: "startsWith key (guildId @ '':'')" by (simp_all add: cachedKeys_iff)
    from loadRows_key_origin [OF cached]
    obtain row g d where row: "row \<in> set rows" "guild_snowflake row = Some g"
      "discord_id row = Some d" "d \<noteq> []" "key = cacheKey g d" by auto
    from assms(2) row have wf: "noColon g" "noColon d" by (auto simp: wellFormedRow_def)
    from pre row(5) have "g = guildId"
      using startsWith_cacheKey_iff [OF assms(1) wf(1), of d] by simp
    with row have "\<lparr>user_id = Some d,
        member_roles = (case discord_role row of None \<Rightarrow> [] | Some rs \<Rightarrow> rs)\<rparr>
        \<in> set (membersOfRows guildId rows)" by (force simp: membersOfRows_def)
    then have "d \<in> discordUserIds (membersOfRows guildId rows)"
      using row(4) unfolding discordUserIds_iff by force
    moreover have "discordIdOfKey key = d"
      unfolding row(5) using wf by (rule discordIdOfKey_cacheKey)
    ultimately show ?thesis by simp
  qed
  then show ?thesis by (simp add: staleIds_def filter_empty_conv)
qed

theorem load_then_stale_empty_witness:
  "staleIds ''g'' (discordUserIds (membersOfRows ''g'' exampleRows)) (loadRows exampleRows []) = [] \<and>
   map fst (loadRows exampleRows []) = [''g:1'', ''g:2'', ''h:1'']"
  using load_then_stale_empty [where guildId = "''g''" and rows = exampleRows]
  by (simp add: exampleRows_def noColon_def wellFormedRow_def cacheKey_def)

text \<open>
  C9 as stated fails. The row of member \<open>1:2\<close> is loaded under the key \<open>g:1:2\<close>, which
  is read back as member 1: against the member list of the rows, member 1 is stale.
\<close>

theorem load_then_stale_counterexample:
  "staleIds ''g'' (discordUserIds (membersOfRows ''g'' colonRows)) (loadRows colonRows []) = [''1'']"
  by (simp add: colonRows_def staleIds_def discordUserIds_def membersOfRows_def truthy_def
      cachedKeys_def startsWith_def discordIdOfKey_def cacheKey_def)

subsection \<open>The format of the keys is kept\<close>

text \<open>
  The hypotheses on the keys of the cache hold after the load of well-formed rows, and
  syncing members whose ids have no colon keeps them.
\<close>

lemma syncCalls_ids:
  "call \<in> set (syncCalls guildMembers) \<Longrightarrow>
   fst call \<noteq> [] \<and> (\<exists>member\<in>set guildMembers. user_id member = Some (fst call))"
  unfolding syncCalls_def
  by (induction guildMembers) (auto split: option.splits if_splits)

lemma loadRows_oneColon:
  assumes "\<forall>row\<in>set rows. wellFormedRow row"
  shows "\<forall>key\<in>fst ` set (loadRows rows []). oneColon key"
proof
  fix key assume "key \<in> fst ` set (loadRows rows [])"
  from loadRows_key_origin [OF this]
  obtain row g d where row: "row \<in> set rows" "guild_snowflake row = Some g"
    "discord_id row = Some d" "key = cacheKey g d" by auto
  with assms have "noColon g" "noColon d" by (auto simp: wellFormedRow_def)
  with row(4) show "oneColon key" by (simp add: oneColon_cacheKey)
qed

lemma syncAllSettled_oneColon:
  assumes "noColon g"
    and "\<forall>member\<in>set guildMembers. \<forall>d. user_id member = Some d \<longrightarrow> noColon d"
    and "\<forall>key\<in>fst ` set (rolesCache s). oneColon key"
  shows "\<forall>key\<in>fst ` set (rolesCache (snd (syncAllSettled env g guildMembers s))). oneColon key"
proof
  fix key
  assume "key \<in> fst ` set (rolesCache (snd (syncAllSettled env g guildMembers s)))"
  then have "key \<in> fst ` set (rolesCache s) \<or>
      (\<exists>w\<in>set (List.enumerate (length (requests s)) (changedCalls g (rolesCache s) guildMembers)).
         key = cacheKey g (fst (snd w)))"
    unfolding syncAllSettled_eq settleSyncs_keys by auto
  then show "oneColon key"
  proof
    assume "key \<in> fst ` set (rolesCache s)"
    with assms(3) show ?thesis by blast
  next
    assume "\<exists>w\<in>set (List.enumerate (length (requests s)) (changedCalls g (rolesCache s) guildMembers)).
         key = cacheKey g (fst (snd w))"
    then obtain w
      where win: "w \<in> set (List.enumerate (length (requests s))
                              (changedCalls g (rolesCache s) guildMembers))"
        and key: "key = cacheKey g (fst (snd w))"
      by blast
    from win have "snd w \<in> snd ` set (List.enumerate (length (requests s))
                                      (changedCalls g (rolesCache s) guildMembers))"
      by (rule imageI)
    then have w: "snd w \<in> set (changedCalls g (rolesCache s) guildMembers)"
      by (simp only: set_map [symmetric] map_snd_enumerate)
    from w have "snd w \<in> set (syncCalls guildMembers)" by (simp add: changedCalls_def)
    from syncCalls_ids [OF this] assms(2) have "noColon (fst (snd w))" by blast
    with assms(1) key show ?thesis by (simp add: oneColon_cacheKey)
  qed
qed

subsection \<open>Pruning after the sync\<close>

lemma cacheKey_inj: "cacheKey g d = cacheKey g d' \<Longrightarrow> d = d'"
  by (simp add: cacheKey_def)

lemma syncCalls_fetched:
  "call \<in> set (syncCalls guildMembers) \<Longrightarrow> fst call \<in> discordUserIds guildMembers"
  using syncCalls_ids [of call guildMembers] by (simp add: discordUserIds_iff)

lemma syncAllSettled_new_keys:
  assumes "key \<in> fst ` set (rolesCache (snd (syncAllSettled env g guildMembers s)))"
  shows "key \<in> fst ` set (rolesCache s) \<or>
         (\<exists>d\<in>discordUserIds guildMembers. key = cacheKey g d)"
proof -
  from assms have "key \<in> fst ` set (rolesCache s) \<or>
      (\<exists>w\<in>set (List.enumerate (length (requests s)) (changedCalls g (rolesCache s) guildMembers)).
         key = cacheKey g (fst (snd w)))"
    unfolding syncAllSettled_eq settleSyncs_keys by auto
  then show ?thesis
  proof
    assume "key \<in> fst ` set (rolesCache s)"
    then show ?thesis ..
  next
    assume "\<exists>w\<in>set (List.enumerate (length (requests s)) (changedCalls g (rolesCache s) guildMembers)).
         key = cacheKey g (fst (snd w))"
    then obtain w
      where win: "w \<in> set (List.enumerate (length (requests s))
                              (changedCalls g (rolesCache s) guildMembers))"
        and key: "key = cacheKey g (fst (snd w))"
      by blast
    from win have "snd w \<in> snd ` set (List.enumerate (length (requests s))
                                      (changedCalls g (rolesCache s) guildMembers))"
      by (rule imageI)
    then have "snd w \<in> set (changedCalls g (rolesCache s) guildMembers)"
      by (simp only: set_map [symmetric] map_snd_enumerate)
    then have "snd w \<in> set (syncCalls guildMembers)" by (simp add: changedCalls_def)
    then have "fst (snd w) \<in> discordUserIds guildMembers" by (rule syncCalls_fetched)
    with key show ?thesis by blast
  qed
qed

lemma syncAllSettled_old_keys:
  "key \<in> fst ` set (rolesCache s) \<Longrightarrow>
   key \<in> fst ` set (rolesCache (snd (syncAllSettled env g guildMembers s)))"
  unfolding syncAllSettled_eq settleSyncs_keys by simp

lemma syncAndPrune_eq:
  "syncAndPrune env g guildMembers s =
     pruneLoop env g (discordUserIds guildMembers)
       (cachedKeys g (rolesCache (snd (syncAllSettled env g guildMembers s))))
       (if length (filter is_rejected (fst (syncAllSettled env g guildMembers s))) > 0
        then (snd (syncAllSettled env g guildMembers s))
               \<lparr>console := console (snd (syncAllSettled env g guildMembers s)) @
                  [ErrorFailedToSync
                     (length (filter is_rejected (fst (syncAllSettled env g guildMembers s)))) g]\<rparr>
        else snd (syncAllSettled env g guildMembers s))"
  unfolding syncAndPrune_def by (simp add: case_prod_beta Let_def)

text \<open>
  C1, amended. For a guild id and fetched member ids without a colon, a cache whose
  keys hold exactly one colon, and a Supabase client that rejects no delete: after the
  syncs have settled, the reconciliation of the guild requests a delete for exactly
  the member ids \<open>d\<close> such that the key of \<open>d\<close> in the guild is cached (after the sync
  or, what is the same, before it) and \<open>d\<close> is not among the fetched ids; the cache
  afterwards is the cache after the sync without the stale keys whose delete the sink
  confirmed, every other entry being left as it was and where it was; and when the
  sink confirms every delete, the keys removed are exactly the stale keys.
\<close>

theorem pruning_removes_confirmed_stale_keys:
  assumes "noColon guildId"
    and "\<forall>member\<in>set guildMembers. \<forall>discordId. user_id member = Some discordId \<longrightarrow> noColon discordId"
    and "\<forall>key\<in>fst ` set (rolesCache s). oneColon key"
    and "\<forall>n discordId. \<not> is_rejected (supabase_delete env n guildId discordId)"
  shows "case syncAllSettled env guildId guildMembers s of
           (syncResults, s1) \<Rightarrow>
             (case syncAndPrune env guildId guildMembers s of
                (outcome, s') \<Rightarrow>
                  outcome = Fulfilled () \<and>
                  requests s' =
                    requests s1 @
                    map (Delete guildId) (staleIds guildId (discordUserIds guildMembers) (rolesCache s1)) \<and>
                  set (staleIds guildId (discordUserIds guildMembers) (rolesCache s1)) =
                    {discordId. cacheKey guildId discordId \<in> fst ` set (rolesCache s1) \<and>
                                discordId \<notin> discordUserIds guildMembers} \<and>
                  set (staleIds guildId (discordUserIds guildMembers) (rolesCache s1)) =
                    {discordId. cacheKey guildId discordId \<in> fst ` set (rolesCache s) \<and>
                                discordId \<notin> discordUserIds guildMembers} \<and>
                  rolesCache s' =
                    filter (\<lambda>entry. fst entry \<notin> cacheKey guildId `
                        set (confirmedDeletes env (length (requests s1)) guildId
                               (staleIds guildId (discordUserIds guildMembers) (rolesCache s1))))
                      (rolesCache s1) \<and>
                  ((\<forall>n discordId. supabase_delete env n guildId discordId = Fulfilled None) \<longrightarrow>
                     rolesCache s' =
                       filter (\<lambda>entry. fst entry \<notin> cacheKey guildId `
                           {discordId. discordId \<notin> discordUserIds guildMembers})
                         (rolesCache s1)))"
proof -
  define run where "run = syncAllSettled env guildId guildMembers s"
  define s1 where "s1 = snd run"
  define t where "t =
    (if length (filter is_rejected (fst run)) > 0
     then s1\<lparr>console := console s1 @
             [ErrorFailedToSync (length (filter is_rejected (fst run))) guildId]\<rparr>
     else s1)"
  define ids where "ids = discordUserIds guildMembers"
  have t: "rolesCache t = rolesCache s1" "requests t = requests s1" by (simp_all add: t_def)
  have prune: "syncAndPrune env guildId guildMembers s =
      pruneLoop env guildId ids (cachedKeys guildId (rolesCache t)) t"
    unfolding t(1) unfolding t_def s1_def run_def ids_def by (rule syncAndPrune_eq)
  have keys: "\<forall>key\<in>fst ` set (rolesCache t). oneColon key"
    unfolding t(1) s1_def run_def using assms(1,2,3) by (rule syncAllSettled_oneColon)
  let ?result = "syncAndPrune env guildId guildMembers s"
  let ?stale = "staleIds guildId ids (rolesCache s1)"
  note loop = pruneLoop_stale [OF assms(1) keys assms(4), of ids, unfolded prune [symmetric],
      unfolded t case_prod_beta]
  from loop have outcome: "fst ?result = Fulfilled ()" by (rule conjunct1)
  from loop have reqs: "requests (snd ?result) = requests s1 @ map (Delete guildId) ?stale"
    by (elim conjE)
  from loop have stale1: "set ?stale =
      {discordId. cacheKey guildId discordId \<in> fst ` set (rolesCache s1) \<and> discordId \<notin> ids}"
    by (elim conjE)
  from loop have cache: "rolesCache (snd ?result) =
      filter (\<lambda>entry. fst entry \<notin> cacheKey guildId `
          set (confirmedDeletes env (length (requests s1)) guildId ?stale)) (rolesCache s1)"
    by (elim conjE)
  from loop have all: "(\<forall>n discordId. supabase_delete env n guildId discordId = Fulfilled None) \<longrightarrow>
      rolesCache (snd ?result) =
        filter (\<lambda>entry. fst entry \<notin> cacheKey guildId ` {discordId. discordId \<notin> ids})
          (rolesCache s1)"
    by (elim conjE)
  have same: "{d. cacheKey guildId d \<in> fst ` set (rolesCache s1) \<and> d \<notin> ids} =
      {d. cacheKey guildId d \<in> fst ` set (rolesCache s) \<and> d \<notin> ids}"
  proof (intro set_eqI iffI)
    fix d assume "d \<in> {d. cacheKey guildId d \<in> fst ` set (rolesCache s1) \<and> d \<notin> ids}"
    then have in1: "cacheKey guildId d \<in> fst ` set (rolesCache s1)" and out: "d \<notin> ids" by simp_all
    from in1 have "cacheKey guildId d \<in> fst ` set (rolesCache s) \<or>
        (\<exists>d'\<in>ids. cacheKey guildId d = cacheKey guildId d')"
      unfolding s1_def run_def ids_def by (rule syncAllSettled_new_keys)
    with out have "cacheKey guildId d \<in> fst ` set (rolesCache s)"
      by (auto dest: cacheKey_inj)
    with out show "d \<in> {d. cacheKey guildId d \<in> fst ` set (rolesCache s) \<and> d \<notin> ids}" by simp
  next
    fix d assume "d \<in> {d. cacheKey guildId d \<in> fst ` set (rolesCache s) \<and> d \<notin> ids}"
    then have in0: "cacheKey guildId d \<in> fst ` set (rolesCache s)" and out: "d \<notin> ids" by simp_all
    from in0 have "cacheKey guildId d \<in> fst ` set (rolesCache s1)"
      unfolding s1_def run_def by (rule syncAllSettled_old_keys)
    with out show "d \<in> {d. cacheKey guildId d \<in> fst ` set (rolesCache s1) \<and> d \<notin> ids}" by simp
  qed
  from stale1 same have stale0: "set ?stale =
      {discordId. cacheKey guildId discordId \<in> fst ` set (rolesCache s) \<and> discordId \<notin> ids}"
    by simp
  show ?thesis
    unfolding case_prod_beta run_def [symmetric] ids_def [symmetric] s1_def [symmetric]
    using outcome reqs stale1 stale0 cache all by (intro conjI)
qed

text \<open>
  The cached keys \<open>g:1\<close>, \<open>g:2\<close> and \<open>g:3\<close> and the fetched members 1 and 3: exactly
  \<open>g:2\<close> is deleted.
\<close>

theorem pruning_removes_confirmed_stale_keys_witness:
  "syncAndPrune acceptingSink ''g''
     [\<lparr>user_id = Some ''1'', member_roles = [''admin'', ''mod'']\<rparr>,
      \<lparr>user_id = Some ''3'', member_roles = [''mod'']\<rparr>] exampleState =
     (Fulfilled (),
      \<lparr>rolesCache = [(''g:1'', [''admin'', ''mod'']), (''g:3'', [''mod'']), (''h:1'', [''vip''])],
       requests = [Delete ''g'' ''2''], console = [LogRemoved ''2'' ''g'']\<rparr>)"
  using pruning_removes_confirmed_stale_keys [where env = acceptingSink and guildId = "''g''"
      and s = exampleState
      and guildMembers = "[\<lparr>user_id = Some ''1'', member_roles = [''admin'', ''mod'']\<rparr>,
                           \<lparr>user_id = Some ''3'', member_roles = [''mod'']\<rparr>]"]
  by (simp add: acceptingSink_def exampleState_def noColon_def oneColon_def syncAndPrune_def
      syncAllSettled_def syncCalls_def List.map_filter_def rolesUnchanged_iff discordUserIds_def
      truthy_def cachedKeys_def startsWith_def discordIdOfKey_def removeUserRoles_def cacheKey_def)

text \<open>
  C1 as stated fails. With a sink that answers every delete with an error, a guild
  whose fetch returns no member keeps its cached member. With a client that rejects
  the delete, the loop is left at the first stale key. With the member \<open>1:2\<close>, who has
  left the guild, the stale key \<open>g:1:2\<close> is read back as member 1, who is still in
  the guild: no delete is requested and the key stays.
\<close>

theorem pruning_counterexample:
  "initialSync failingSink [''h''] exampleState =
     Some (Fulfilled (),
           exampleState\<lparr>requests := [GetGuildMembers ''h'' None, Delete ''h'' ''1''],
             console := [LogSyncingGuild ''h'', LogFoundMembers 0 ''h'',
                         ErrorFailedToRemove ''1'' ''h'' ''service unavailable'']\<rparr>) \<and>
   map_of (rolesCache exampleState) ''h:1'' = Some [''vip''] \<and>
   syncAndPrune rejectingSink ''g'' [] exampleState =
     (Rejected ''fetch failed'', exampleState\<lparr>requests := [Delete ''g'' ''1'']\<rparr>) \<and>
   rolesCache colonState = [(''g:1:2'', [''mod'']), (''g:1'', [''vip''])] \<and>
   syncAndPrune acceptingSink ''g'' [\<lparr>user_id = Some ''1'', member_roles = [''vip'']\<rparr>] colonState =
     (Fulfilled (), colonState)"
  by (simp add: failingSink_def acceptingSink_def rejectingSink_def exampleState_def colonState_def
      colonRows_def
      syncGuild_def fetchAllMembers_def fetchGuildMembersPage_def fetchLoop.simps PAGE_LIMIT_def
      truthy_def syncAndPrune_def syncAllSettled_def syncCalls_def List.map_filter_def
      rolesUnchanged_iff discordUserIds_def cachedKeys_def startsWith_def discordIdOfKey_def
      removeUserRoles_def cacheKey_def)

subsection \<open>Isolation of the sync failures\<close>

lemma syncCalls_complete:
  "member \<in> set guildMembers \<Longrightarrow> user_id member = Some d \<Longrightarrow> d \<noteq> [] \<Longrightarrow>
   (d, member_roles member) \<in> set (syncCalls guildMembers)"
  unfolding syncCalls_def
  by (induction guildMembers) (auto split: option.splits)

lemma syncCalls_origin:
  "call \<in> set (syncCalls guildMembers) \<Longrightarrow>
   \<exists>member\<in>set guildMembers. user_id member = Some (fst call) \<and> member_roles member = snd call"
  unfolding syncCalls_def
  by (induction guildMembers) (auto split: option.splits if_splits)

lemma upsertUserRoles_resume_same:
  assumes "map_of (rolesCache s) (cacheKey g d) = Some r" and "d' = d \<longrightarrow> r' = r"
  shows "map_of (rolesCache (snd (upsertUserRoles_resume g d' r' answer s))) (cacheKey g d) = Some r"
  using assms
  by (cases "d' = d")
    (simp_all add: upsertUserRoles_resume_def update_conv' cacheKey_def
      split: settled.splits option.splits)

lemma settleSyncs_keeps_value:
  assumes "map_of (rolesCache s) (cacheKey g d) = Some r"
    and "\<forall>v\<in>set waiting. fst (snd v) = d \<longrightarrow> snd (snd v) = r"
  shows "map_of (rolesCache (snd (settleSyncs env g waiting s))) (cacheKey g d) = Some r"
  using assms
proof (induction waiting arbitrary: s)
  case Nil
  then show ?case by simp
next
  case (Cons v vs)
  let ?s1 = "snd (upsertUserRoles_resume g (fst (snd v)) (snd (snd v))
                    (supabase_upsert env (fst v) g (fst (snd v)) (snd (snd v))) s)"
  from Cons.prems(2) have here: "fst (snd v) = d \<longrightarrow> snd (snd v) = r"
    and later: "\<forall>u\<in>set vs. fst (snd u) = d \<longrightarrow> snd (snd u) = r" by simp_all
  have "map_of (rolesCache ?s1) (cacheKey g d) = Some r"
    using Cons.prems(1) here by (rule upsertUserRoles_resume_same)
  from Cons.IH [OF this later] show ?case by (simp only: settleSyncs_Cons_snd)
qed

lemma settleSyncs_confirmed_value:
  assumes "w \<in> set waiting"
    and "supabase_upsert env (fst w) g (fst (snd w)) (snd (snd w)) = Fulfilled None"
    and "\<forall>v\<in>set waiting. fst (snd v) = fst (snd w) \<longrightarrow> snd (snd v) = snd (snd w)"
  shows "map_of (rolesCache (snd (settleSyncs env g waiting s))) (cacheKey g (fst (snd w))) =
           Some (snd (snd w))"
  using assms(1,3)
proof (induction waiting arbitrary: s)
  case Nil
  then show ?case by simp
next
  case (Cons v vs)
  let ?s1 = "snd (upsertUserRoles_resume g (fst (snd v)) (snd (snd v))
                    (supabase_upsert env (fst v) g (fst (snd v)) (snd (snd v))) s)"
  from Cons.prems(2) have later: "\<forall>u\<in>set vs. fst (snd u) = fst (snd w) \<longrightarrow> snd (snd u) = snd (snd w)"
    by simp
  show ?case
  proof (cases "w \<in> set vs")
    case True
    from Cons.IH [OF True later] show ?thesis by (simp only: settleSyncs_Cons_snd)
  next
    case False
    with Cons.prems(1) have eq: "v = w" by simp
    have "map_of (rolesCache ?s1) (cacheKey g (fst (snd w))) = Some (snd (snd w))"
      unfolding eq assms(2) by (rule upsertUserRoles_resume_confirmed)
    from settleSyncs_keeps_value [OF this later] show ?thesis
      by (simp only: settleSyncs_Cons_snd)
  qed
qed

lemma pruneLoop_requests:
  "requests (snd (pruneLoop env g ids keys s)) =
     requests s @
     map (Delete g)
       (attemptedDeletes env (length (requests s)) g
          (filter (\<lambda>d. d \<notin> ids) (map discordIdOfKey keys)))"
proof (induction keys arbitrary: s)
  case Nil
  show ?case by simp
next
  case (Cons key keys)
  let ?d = "discordIdOfKey key"
  show ?case
  proof (cases "?d \<in> ids")
    case True
    with Cons.IH [of s] show ?thesis by simp
  next
    case False
    let ?s1 = "s\<lparr>requests := requests s @ [Delete g ?d]\<rparr>"
    show ?thesis
    proof (cases "supabase_delete env (length (requests s)) g ?d")
      case (Rejected reason)
      with False show ?thesis by (simp add: removeUserRoles_def)
    next
      case (Fulfilled err)
      show ?thesis
      proof (cases err)
        case None
        let ?s2 = "?s1\<lparr>rolesCache := AList.delete (cacheKey g ?d) (rolesCache ?s1),
                       console := console ?s1 @ [LogRemoved ?d g]\<rparr>"
        have "pruneLoop env g ids (key # keys) s = pruneLoop env g ids keys ?s2"
          using False Fulfilled None by (simp add: removeUserRoles_def)
        with Cons.IH [of ?s2] False Fulfilled None show ?thesis by simp
      next
        case (Some message)
        let ?s2 = "?s1\<lparr>console := console ?s1 @ [ErrorFailedToRemove ?d g message]\<rparr>"
        have "pruneLoop env g ids (key # keys) s = pruneLoop env g ids keys ?s2"
          using False Fulfilled Some by (simp add: removeUserRoles_def)
        with Cons.IH [of ?s2] False Fulfilled Some show ?thesis by simp
      qed
    qed
  qed
qed

lemma pruneLoop_cache:
  "rolesCache (snd (pruneLoop env g ids keys s)) =
     filter (\<lambda>entry. fst entry \<notin> cacheKey g `
         set (confirmedDeletes env (length (requests s)) g
                (attemptedDeletes env (length (requests s)) g
                   (filter (\<lambda>d. d \<notin> ids) (map discordIdOfKey keys)))))
       (rolesCache s)"
proof (induction keys arbitrary: s)
  case Nil
  show ?case by simp
next
  case (Cons key keys)
  let ?d = "discordIdOfKey key"
  show ?case
  proof (cases "?d \<in> ids")
    case True
    with Cons.IH [of s] show ?thesis by simp
  next
    case False
    let ?s1 = "s\<lparr>requests := requests s @ [Delete g ?d]\<rparr>"
    show ?thesis
    proof (cases "supabase_delete env (length (requests s)) g ?d")
      case (Rejected reason)
      with False show ?thesis by (simp add: removeUserRoles_def)
    next
      case (Fulfilled err)
      show ?thesis
      proof (cases err)
        case None
        let ?s2 = "?s1\<lparr>rolesCache := AList.delete (cacheKey g ?d) (rolesCache ?s1),
                       console := console ?s1 @ [LogRemoved ?d g]\<rparr>"
        have "pruneLoop env g ids (key # keys) s = pruneLoop env g ids keys ?s2"
          using False Fulfilled None by (simp add: removeUserRoles_def)
        with Cons.IH [of ?s2] False Fulfilled None show ?thesis
          by (simp add: delete_filter conj_commute)
      next
        case (Some message)
        let ?s2 = "?s1\<lparr>console := console ?s1 @ [ErrorFailedToRemove ?d g message]\<rparr>"
        have "pruneLoop env g ids (key # keys) s = pruneLoop env g ids keys ?s2"
          using False Fulfilled Some by (simp add: removeUserRoles_def)
        with Cons.IH [of ?s2] False Fulfilled Some show ?thesis by simp
      qed
    qed
  qed
qed

lemma stale_after_sync:
  assumes "noColon g"
    and "\<forall>member\<in>set guildMembers. \<forall>d. user_id member = Some d \<longrightarrow> noColon d"
    and "\<forall>key\<in>fst ` set (rolesCache s). oneColon key"
  shows "set (staleIds g (discordUserIds guildMembers)
                (rolesCache (snd (syncAllSettled env g guildMembers s)))) =
           {d. cacheKey g d \<in> fst ` set (rolesCache s) \<and> d \<notin> discordUserIds guildMembers}"
proof -
  let ?s1 = "snd (syncAllSettled env g guildMembers s)"
  let ?ids = "discordUserIds guildMembers"
  have keys: "\<forall>key\<in>fst ` set (rolesCache ?s1). oneColon key"
    using assms by (rule syncAllSettled_oneColon)
  have "set (staleIds g ?ids (rolesCache ?s1)) =
      {d. cacheKey g d \<in> fst ` set (rolesCache ?s1) \<and> d \<notin> ?ids}"
    using assms(1) keys by (rule set_staleIds)
  also have "\<dots> = {d. cacheKey g d \<in> fst ` set (rolesCache s) \<and> d \<notin> ?ids}"
  proof (intro set_eqI iffI)
    fix d assume "d \<in> {d. cacheKey g d \<in> fst ` set (rolesCache ?s1) \<and> d \<notin> ?ids}"
    then have in1: "cacheKey g d \<in> fst ` set (rolesCache ?s1)" and out: "d \<notin> ?ids" by simp_all
    from in1 have "cacheKey g d \<in> fst ` set (rolesCache s) \<or>
        (\<exists>d'\<in>?ids. cacheKey g d = cacheKey g d')"
      by (rule syncAllSettled_new_keys)
    with out have "cacheKey g d \<in> fst ` set (rolesCache s)"
      by (auto dest: cacheKey_inj)
    with out show "d \<in> {d. cacheKey g d \<in> fst ` set (rolesCache s) \<and> d \<notin> ?ids}" by simp
  next
    fix d assume "d \<in> {d. cacheKey g d \<in> fst ` set (rolesCache s) \<and> d \<notin> ?ids}"
    then have in0: "cacheKey g d \<in> fst ` set (rolesCache s)" and out: "d \<notin> ?ids" by simp_all
    from in0 have "cacheKey g d \<in> fst ` set (rolesCache ?s1)"
      by (rule syncAllSettled_old_keys)
    with out show "d \<in> {d. cacheKey g d \<in> fst ` set (rolesCache ?s1) \<and> d \<notin> ?ids}" by simp
  qed
  finally show ?thesis .
qed

lemma syncAllSettled_member_synced:
  assumes member: "member \<in> set guildMembers" "user_id member = Some d" "d \<noteq> []"
    and changed: "\<not> rolesUnchanged (rolesCache s) (cacheKey g d) (member_roles member)"
  shows "\<exists>n. length (requests s) \<le> n \<and>
             n < length (requests (snd (syncAllSettled env g guildMembers s))) \<and>
             requests (snd (syncAllSettled env g guildMembers s)) ! n =
               Upsert g d (member_roles member) \<and>
             (supabase_upsert env n g d (member_roles member) = Fulfilled None \<longrightarrow>
                cacheKey g d \<in> fst ` set (rolesCache (snd (syncAllSettled env g guildMembers s))) \<and>
                ((\<forall>other\<in>set guildMembers. user_id other = Some d \<longrightarrow>
                     member_roles other = member_roles member) \<longrightarrow>
                   map_of (rolesCache (snd (syncAllSettled env g guildMembers s))) (cacheKey g d) =
                     Some (member_roles member)))"
proof -
  define r where "r = member_roles member"
  define calls where "calls = changedCalls g (rolesCache s) guildMembers"
  define waiting where
    "waiting = sort_key (\<lambda>call. arrival env (fst call)) (List.enumerate (length (requests s)) calls)"
  define s0 where
    "s0 = s\<lparr>requests := requests s @ map (\<lambda>call. Upsert g (fst call) (snd call)) calls\<rparr>"
  define s1 where "s1 = snd (settleSyncs env g waiting s0)"
  have run: "snd (syncAllSettled env g guildMembers s) = s1"
    unfolding s1_def waiting_def s0_def calls_def syncAllSettled_eq ..
  have set_waiting: "set waiting = set (List.enumerate (length (requests s)) calls)"
    by (simp add: waiting_def)
  have reqs: "requests s1 = requests s @ map (\<lambda>call. Upsert g (fst call) (snd call)) calls"
    unfolding s1_def settleSyncs_requests by (simp add: s0_def)
  from member have "(d, r) \<in> set (syncCalls guildMembers)"
    unfolding r_def by (rule syncCalls_complete)
  with changed have "(d, r) \<in> set calls"
    by (simp add: calls_def changedCalls_def r_def)
  then obtain i where i: "i < length calls" "calls ! i = (d, r)"
    by (auto simp: in_set_conv_nth)
  define n where "n = length (requests s) + i"
  define w where "w = (n, d, r)"
  have w_simps: "fst w = n" "fst (snd w) = d" "snd (snd w) = r" by (simp_all add: w_def)
  have lo: "length (requests s) \<le> n" by (simp add: n_def)
  have hi: "n < length (requests s1)" using i(1) by (simp add: reqs n_def)
  have at: "requests s1 ! n = Upsert g d r"
    using i by (simp add: reqs n_def nth_append)
  have mem: "w \<in> set waiting"
    using i by (simp add: set_waiting in_set_enumerate_eq w_def n_def)
  have cached: "cacheKey g d \<in> fst ` set (rolesCache s1) \<and>
      ((\<forall>other\<in>set guildMembers. user_id other = Some d \<longrightarrow> member_roles other = r) \<longrightarrow>
         map_of (rolesCache s1) (cacheKey g d) = Some r)"
    if ok: "supabase_upsert env n g d r = Fulfilled None"
  proof
    have okw: "supabase_upsert env (fst w) g (fst (snd w)) (snd (snd w)) = Fulfilled None"
      using ok by (simp only: w_simps)
    have "cacheKey g (fst (snd w)) \<in> fst ` set (rolesCache s1)"
      unfolding s1_def settleSyncs_keys using mem okw by blast
    then show "cacheKey g d \<in> fst ` set (rolesCache s1)" by (simp only: w_simps)
    show "(\<forall>other\<in>set guildMembers. user_id other = Some d \<longrightarrow> member_roles other = r) \<longrightarrow>
        map_of (rolesCache s1) (cacheKey g d) = Some r"
    proof
      assume same: "\<forall>other\<in>set guildMembers. user_id other = Some d \<longrightarrow> member_roles other = r"
      have agree: "\<forall>v\<in>set waiting. fst (snd v) = fst (snd w) \<longrightarrow> snd (snd v) = snd (snd w)"
      proof (intro ballI impI)
        fix v assume v: "v \<in> set waiting" and d: "fst (snd v) = fst (snd w)"
        from v have "snd v \<in> snd ` set (List.enumerate (length (requests s)) calls)"
          unfolding set_waiting by (rule imageI)
        then have "snd v \<in> set calls"
          by (simp only: set_map [symmetric] map_snd_enumerate)
        then have "snd v \<in> set (syncCalls guildMembers)"
          by (simp add: calls_def changedCalls_def)
        from syncCalls_origin [OF this] obtain other
          where other: "other \<in> set guildMembers" "user_id other = Some (fst (snd v))"
            "member_roles other = snd (snd v)" by blast
        from other d same have "snd (snd v) = r" by (simp add: w_simps)
        then show "snd (snd v) = snd (snd w)" by (simp only: w_simps)
      qed
      have "map_of (rolesCache s1) (cacheKey g (fst (snd w))) = Some (snd (snd w))"
        unfolding s1_def by (rule settleSyncs_confirmed_value [OF mem okw agree])
      then show "map_of (rolesCache s1) (cacheKey g d) = Some r" by (simp only: w_simps)
    qed
  qed
  from lo hi at cached show ?thesis unfolding run r_def [symmetric] by blast
qed

lemma syncAndPrune_requests:
  "requests (snd (syncAndPrune env g guildMembers s)) =
     requests (snd (syncAllSettled env g guildMembers s)) @
     map (Delete g)
       (attemptedDeletes env (length (requests (snd (syncAllSettled env g guildMembers s)))) g
          (staleIds g (discordUserIds guildMembers)
             (rolesCache (snd (syncAllSettled env g guildMembers s)))))"
proof -
  define s1 where "s1 = snd (syncAllSettled env g guildMembers s)"
  define results where "results = fst (syncAllSettled env g guildMembers s)"
  define t where "t =
    (if length (filter is_rejected results) > 0
     then s1\<lparr>console := console s1 @ [ErrorFailedToSync (length (filter is_rejected results)) g]\<rparr>
     else s1)"
  have t: "rolesCache t = rolesCache s1" "requests t = requests s1" by (simp_all add: t_def)
  have "syncAndPrune env g guildMembers s =
      pruneLoop env g (discordUserIds guildMembers) (cachedKeys g (rolesCache s1)) t"
    unfolding t_def s1_def results_def by (rule syncAndPrune_eq)
  then have "requests (snd (syncAndPrune env g guildMembers s)) =
      requests t @ map (Delete g)
        (attemptedDeletes env (length (requests t)) g
           (filter (\<lambda>d. d \<notin> discordUserIds guildMembers)
              (map discordIdOfKey (cachedKeys g (rolesCache s1)))))"
    by (simp only: pruneLoop_requests)
  then show ?thesis
    unfolding t s1_def [symmetric] by (simp only: staleIds_def)
qed

lemma syncAndPrune_cache:
  "rolesCache (snd (syncAndPrune env g guildMembers s)) =
     filter (\<lambda>entry. fst entry \<notin> cacheKey g `
         set (confirmedDeletes env (length (requests (snd (syncAllSettled env g guildMembers s)))) g
                (attemptedDeletes env (length (requests (snd (syncAllSettled env g guildMembers s)))) g
                   (staleIds g (discordUserIds guildMembers)
                      (rolesCache (snd (syncAllSettled env g guildMembers s)))))))
       (rolesCache (snd (syncAllSettled env g guildMembers s)))"
proof -
  define s1 where "s1 = snd (syncAllSettled env g guildMembers s)"
  define results where "results = fst (syncAllSettled env g guildMembers s)"
  define t where "t =
    (if length (filter is_rejected results) > 0
     then s1\<lparr>console := console s1 @ [ErrorFailedToSync (length (filter is_rejected results)) g]\<rparr>
     else s1)"
  have t: "rolesCache t = rolesCache s1" "requests t = requests s1" by (simp_all add: t_def)
  have "syncAndPrune env g guildMembers s =
      pruneLoop env g (discordUserIds guildMembers) (cachedKeys g (rolesCache s1)) t"
    unfolding t_def s1_def results_def by (rule syncAndPrune_eq)
  then have "rolesCache (snd (syncAndPrune env g guildMembers s)) =
      filter (\<lambda>entry. fst entry \<notin> cacheKey g `
          set (confirmedDeletes env (length (requests t)) g
                 (attemptedDeletes env (length (requests t)) g
                    (filter (\<lambda>d. d \<notin> discordUserIds guildMembers)
                       (map discordIdOfKey (cachedKeys g (rolesCache s1)))))))
        (rolesCache t)"
    by (simp only: pruneLoop_cache)
  then show ?thesis
    unfolding t s1_def [symmetric] by (simp only: staleIds_def)
qed

lemma discordUserIds_eq:
  "discordUserIds guildMembers =
     {d. d \<noteq> [] \<and> (\<exists>member\<in>set guildMembers. user_id member = Some d)}"
  by (rule set_eqI) (simp add: discordUserIds_iff)

text \<open>
  C8. Within the reconciliation of one guild the syncs of the members are isolated,
  whatever the sink answers to each of them. Every fetched member with an id either
  is unchanged against the cache or has its upsert in the log of requests; when the
  sink confirms that upsert the member is cached after the sync (with its observed
  roles, when all fetched members of that id carry the same roles), whether or not the
  syncs of the other members failed. The rejected syncs are only counted. The pruning
  loop then runs: after the upserts, it requests a delete for the ids that are stale
  in the cache as the settled syncs left it, one after the other up to a rejected
  delete, and removes the keys whose delete is confirmed. With ids free of colons the
  stale ids are the cached members of the guild that were not fetched.
\<close>

theorem sync_failures_isolated:
  "case syncAllSettled env guildId guildMembers s of
     (syncResults, s1) \<Rightarrow>
       (case syncAndPrune env guildId guildMembers s of
          (outcome, s') \<Rightarrow>
            (\<forall>member\<in>set guildMembers. \<forall>discordId.
               user_id member = Some discordId \<and> discordId \<noteq> [] \<longrightarrow>
                 rolesUnchanged (rolesCache s) (cacheKey guildId discordId) (member_roles member) \<or>
                 (\<exists>n. length (requests s) \<le> n \<and> n < length (requests s1) \<and>
                      requests s1 ! n = Upsert guildId discordId (member_roles member) \<and>
                      (supabase_upsert env n guildId discordId (member_roles member) = Fulfilled None \<longrightarrow>
                         cacheKey guildId discordId \<in> fst ` set (rolesCache s1) \<and>
                         ((\<forall>other\<in>set guildMembers. user_id other = Some discordId \<longrightarrow>
                              member_roles other = member_roles member) \<longrightarrow>
                            map_of (rolesCache s1) (cacheKey guildId discordId) =
                              Some (member_roles member))))) \<and>
            requests s1 =
              requests s @
              map (\<lambda>call. Upsert guildId (fst call) (snd call))
                (changedCalls guildId (rolesCache s) guildMembers) \<and>
            length (filter is_rejected syncResults) =
              length (filter (\<lambda>w. is_rejected (supabase_upsert env (fst w) guildId (fst (snd w))
                                      (snd (snd w))))
                        (List.enumerate (length (requests s))
                           (changedCalls guildId (rolesCache s) guildMembers))) \<and>
            requests s' =
              requests s1 @
              map (Delete guildId)
                (attemptedDeletes env (length (requests s1)) guildId
                   (staleIds guildId (discordUserIds guildMembers) (rolesCache s1))) \<and>
            rolesCache s' =
              filter (\<lambda>entry. fst entry \<notin> cacheKey guildId `
                  set (confirmedDeletes env (length (requests s1)) guildId
                         (attemptedDeletes env (length (requests s1)) guildId
                            (staleIds guildId (discordUserIds guildMembers) (rolesCache s1)))))
                (rolesCache s1) \<and>
            discordUserIds guildMembers =
              {d. d \<noteq> [] \<and> (\<exists>member\<in>set guildMembers. user_id member = Some d)} \<and>
            (noColon guildId \<and>
             (\<forall>member\<in>set guildMembers. \<forall>d. user_id member = Some d \<longrightarrow> noColon d) \<and>
             (\<forall>key\<in>fst ` set (rolesCache s). oneColon key) \<longrightarrow>
               set (staleIds guildId (discordUserIds guildMembers) (rolesCache s1)) =
                 {d. cacheKey guildId d \<in> fst ` set (rolesCache s) \<and>
                     d \<notin> discordUserIds guildMembers}))"
proof -
  let ?run = "syncAllSettled env guildId guildMembers s"
  have members: "\<forall>member\<in>set guildMembers. \<forall>discordId.
      user_id member = Some discordId \<and> discordId \<noteq> [] \<longrightarrow>
        rolesUnchanged (rolesCache s) (cacheKey guildId discordId) (member_roles member) \<or>
        (\<exists>n. length (requests s) \<le> n \<and> n < length (requests (snd ?run)) \<and>
             requests (snd ?run) ! n = Upsert guildId discordId (member_roles member) \<and>
             (supabase_upsert env n guildId discordId (member_roles member) = Fulfilled None \<longrightarrow>
                cacheKey guildId discordId \<in> fst ` set (rolesCache (snd ?run)) \<and>
                ((\<forall>other\<in>set guildMembers. user_id other = Some discordId \<longrightarrow>
                     member_roles other = member_roles member) \<longrightarrow>
                   map_of (rolesCache (snd ?run)) (cacheKey guildId discordId) =
                     Some (member_roles member))))"
  proof (intro ballI allI impI)
    fix member discordId
    assume m: "member \<in> set guildMembers" and id: "user_id member = Some discordId \<and> discordId \<noteq> []"
    show "rolesUnchanged (rolesCache s) (cacheKey guildId discordId) (member_roles member) \<or>
        (\<exists>n. length (requests s) \<le> n \<and> n < length (requests (snd ?run)) \<and>
             requests (snd ?run) ! n = Upsert guildId discordId (member_roles member) \<and>
             (supabase_upsert env n guildId discordId (member_roles member) = Fulfilled None \<longrightarrow>
                cacheKey guildId discordId \<in> fst ` set (rolesCache (snd ?run)) \<and>
                ((\<forall>other\<in>set guildMembers. user_id other = Some discordId \<longrightarrow>
                     member_roles other = member_roles member) \<longrightarrow>
                   map_of (rolesCache (snd ?run)) (cacheKey guildId discordId) =
                     Some (member_roles member))))"
    proof (cases "rolesUnchanged (rolesCache s) (cacheKey guildId discordId) (member_roles member)")
      case True
      then show ?thesis ..
    next
      case False
      from id have "user_id member = Some discordId" "discordId \<noteq> []" by simp_all
      from syncAllSettled_member_synced [OF m this False] show ?thesis ..
    qed
  qed
  note changed = syncAllSettled_changed [of guildId s guildMembers env,
      unfolded Let_def case_prod_beta]
  from changed have reqs: "requests (snd ?run) =
      requests s @ map (\<lambda>call. Upsert guildId (fst call) (snd call))
        (changedCalls guildId (rolesCache s) guildMembers)"
    by (rule conjunct1)
  from changed have count: "length (filter is_rejected (fst ?run)) =
      length (filter (\<lambda>w. is_rejected (supabase_upsert env (fst w) guildId (fst (snd w)) (snd (snd w))))
                (List.enumerate (length (requests s))
                   (changedCalls guildId (rolesCache s) guildMembers)))"
    by (elim conjE)
  have stale: "noColon guildId \<and>
      (\<forall>member\<in>set guildMembers. \<forall>d. user_id member = Some d \<longrightarrow> noColon d) \<and>
      (\<forall>key\<in>fst ` set (rolesCache s). oneColon key) \<longrightarrow>
        set (staleIds guildId (discordUserIds guildMembers) (rolesCache (snd ?run))) =
          {d. cacheKey guildId d \<in> fst ` set (rolesCache s) \<and> d \<notin> discordUserIds guildMembers}"
    by (intro impI, elim conjE) (rule stale_after_sync)
  show ?thesis
    unfolding case_prod_beta
    using members reqs count syncAndPrune_requests [of env guildId guildMembers s]
      syncAndPrune_cache [of env guildId guildMembers s] discordUserIds_eq [of guildMembers] stale
    by (intro conjI)
qed

text \<open>
  The upsert of member 1 is rejected; members 3 and 4 are synced all the same, the
  failure is counted, and the stale member 2 is pruned.
\<close>

theorem sync_failures_isolated_witness:
  "syncAndPrune flakySink ''g''
     [\<lparr>user_id = Some ''1'', member_roles = [''mod'']\<rparr>,
      \<lparr>user_id = Some ''3'', member_roles = [''mod'', ''vip'']\<rparr>,
      \<lparr>user_id = Some ''4'', member_roles = []\<rparr>] exampleState =
     (Fulfilled (),
      \<lparr>rolesCache = [(''g:1'', [''admin'', ''mod'']), (''g:3'', [''mod'', ''vip'']),
                     (''h:1'', [''vip'']), (''g:4'', [])],
       requests = [Upsert ''g'' ''1'' [''mod''], Upsert ''g'' ''3'' [''mod'', ''vip''],
                   Upsert ''g'' ''4'' [], Delete ''g'' ''2''],
       console = [ErrorFailedToSync 1 ''g'', LogRemoved ''2'' ''g'']\<rparr>)"
  using sync_failures_isolated [where env = flakySink and guildId = "''g''" and s = exampleState
      and guildMembers = "[\<lparr>user_id = Some ''1'', member_roles = [''mod'']\<rparr>,
        \<lparr>user_id = Some ''3'', member_roles = [''mod'', ''vip'']\<rparr>,
        \<lparr>user_id = Some ''4'', member_roles = []\<rparr>]"]
  by (simp add: flakySink_def exampleState_def syncAndPrune_def syncAllSettled_def syncCalls_def
      List.map_filter_def rolesUnchanged_iff cacheKey_def upsertUserRoles_resume_def
      discordUserIds_def truthy_def cachedKeys_def startsWith_def discordIdOfKey_def
      removeUserRoles_def changedCalls_def)

end
